theory Spec2Isabelle
  imports Main "HOL-Library.Multiset"
begin


section \<open>The notebook document engine of \<open>src/index.tsx\<close>\<close>

text \<open>
  The notebook page keeps its document in module-level variables: the array \<open>cells\<close>, the
  counter \<open>cellCounter\<close>, the dictionary \<open>monacoInstances\<close> of editor widgets, the clipboard
  \<open>cellClipboard\<close>, the id \<open>focusedCellId\<close> and the object \<open>persistentScope\<close>. The functions
  below are those of the source with that state passed explicitly. Strings are lists of
  8-bit characters, so a text is read as a sequence of code units below 256.
\<close>

subsection \<open>String operations of the JavaScript library\<close>

definition nl :: char where
  "nl = CHR 0x0A"

text \<open>White space as \<open>String.prototype.trim\<close> and the regular expression class \<open>\s\<close> see it,
  among the code units below 256: tab, line feed, vertical tab, form feed, carriage return,
  space and no-break space.\<close>

definition isSpace :: "char \<Rightarrow> bool" where
  "isSpace c = (c = CHR 0x09 \<or> c = CHR 0x0A \<or> c = CHR 0x0B \<or> c = CHR 0x0C \<or> c = CHR 0x0D
      \<or> c = CHR 0x20 \<or> c = CHR 0xA0)"

definition trimStart :: "string \<Rightarrow> string" where
  "trimStart s = dropWhile isSpace s"

definition trimEnd :: "string \<Rightarrow> string" where
  "trimEnd s = rev (dropWhile isSpace (rev s))"

definition trim :: "string \<Rightarrow> string" where
  "trim s = trimEnd (trimStart s)"

text \<open>\<open>s.split('\n')\<close>: never empty, the empty string gives one empty line.\<close>

fun split_lines :: "string \<Rightarrow> string list" where
  "split_lines [] = [[]]"
| "split_lines (c # cs) =
     (if c = nl then [] # split_lines cs
      else (case split_lines cs of l # ls \<Rightarrow> (c # l) # ls | [] \<Rightarrow> [[c]]))"

text \<open>\<open>lines.join('\n')\<close>.\<close>

fun join_lines :: "string list \<Rightarrow> string" where
  "join_lines [] = []"
| "join_lines [l] = l"
| "join_lines (l # m # ls) = l @ nl # join_lines (m # ls)"

definition startsWith :: "string \<Rightarrow> string \<Rightarrow> bool" where
  "startsWith s p = (take (length p) s = p)"

definition endsWith :: "string \<Rightarrow> string \<Rightarrow> bool" where
  "endsWith s p = (length p \<le> length s \<and> drop (length s - length p) s = p)"

fun includes_str :: "string \<Rightarrow> string \<Rightarrow> bool" where
  "includes_str [] p = (p = [])"
| "includes_str (c # cs) p = (startsWith (c # cs) p \<or> includes_str cs p)"

subsection \<open>Data model\<close>

text \<open>\<open>type Output\<close>: a log or error line with its text, or an image with data and mime type.\<close>

datatype Output = Log string | Error string | Image string string

datatype cell_type = Js | Md

datatype cell_mode = Edit | Render

text \<open>\<open>interface Cell\<close>. Optional fields are options, \<open>None\<close> being \<open>undefined\<close>.\<close>

record Cell =
  cellId :: string
  type :: cell_type
  mode :: "cell_mode option"
  outputs :: "Output list"
  isOutputVisible :: "bool option"
  isExecuted :: "bool option"
  lastExecutedContent :: "string option"

text \<open>What the engine uses of an editor widget: its text (\<open>getValue\<close>) and whether the
  widget holds the text focus (\<open>hasTextFocus\<close>).\<close>

record Editor =
  getValue :: string
  hasTextFocus :: bool

datatype js_value = JsNumber int | JsString string

text \<open>
  The object \<open>persistentScope\<close>: its own string-keyed properties, in the order in which
  \<open>for (const key in persistentScope)\<close> meets them, each with its value and the two
  attributes that \<open>for...in\<close> and \<open>delete\<close> consult. Keys are not repeated in an object.
  Symbol keys and the prototype of the object are not modelled.
\<close>

record property =
  prop_value :: js_value
  enumerable :: bool
  configurable :: bool

type_synonym scope = "(string \<times> property) list"

text \<open>The value of the own property \<open>key\<close>, if the object has one.\<close>

definition scope_get :: "scope \<Rightarrow> string \<Rightarrow> js_value option" where
  "scope_get s key = map_option prop_value (map_of s key)"

text \<open>
  The page state. \<open>monacoInstances\<close> is an association list in insertion order, which is the
  order \<open>for (const cellId in monacoInstances)\<close> visits the keys \<open>cell<n>\<close>. \<open>elements\<close> holds
  the ids whose container, editor container and output elements are in the document; they
  are created together by \<open>addCell\<close> and removed together by \<open>deleteCell\<close>.
\<close>

record state =
  cells :: "Cell list"
  cellCounter :: nat
  monacoInstances :: "(string \<times> Editor) list"
  elements :: "string set"
  cellClipboard :: "(Cell \<times> string) option"
  focusedCellId :: "string option"
  persistentScope :: scope

subsection \<open>Cell ids\<close>

text \<open>The template literal \<open>`cell${cellCounter++}`\<close>: the decimal digits of the counter.\<close>

definition digit_char :: "nat \<Rightarrow> char" where
  "digit_char d = char_of (48 + d)"

fun decimal :: "nat \<Rightarrow> string" where
  "decimal n = (if n < 10 then [digit_char n] else decimal (n div 10) @ [digit_char (n mod 10)])"

declare decimal.simps [simp del]

definition cellIdOf :: "nat \<Rightarrow> string" where
  "cellIdOf n = ''cell'' @ decimal n"

text \<open>Reading the digits back, used only to show that the ids of different counters differ.\<close>

definition digits_value :: "string \<Rightarrow> nat" where
  "digits_value s = foldl (\<lambda>a c. 10 * a + (of_char c - 48)) 0 s"

subsection \<open>Array helpers\<close>

text \<open>\<open>xs.findIndex(p)\<close>, with \<open>None\<close> for \<open>-1\<close>.\<close>

fun findIndex :: "('a \<Rightarrow> bool) \<Rightarrow> 'a list \<Rightarrow> nat option" where
  "findIndex p [] = None"
| "findIndex p (x # xs) =
     (if p x then Some 0 else map_option Suc (findIndex p xs))"

text \<open>\<open>xs.splice(i, 1)\<close> leaves \<open>remove_at i xs\<close> and \<open>xs.splice(i, 0, x)\<close> leaves
  \<open>insert_at i x xs\<close>; an index past the end removes nothing, respectively appends.\<close>

definition remove_at :: "nat \<Rightarrow> 'a list \<Rightarrow> 'a list" where
  "remove_at i xs = take i xs @ drop (Suc i) xs"

definition insert_at :: "nat \<Rightarrow> 'a \<Rightarrow> 'a list \<Rightarrow> 'a list" where
  "insert_at i x xs = take i xs @ x # drop i xs"

text \<open>Mutating the object \<open>cells.find((c) => c.id === cellId)\<close> returns: the first cell with
  the id changes, in place.\<close>

fun modify_cell :: "string \<Rightarrow> (Cell \<Rightarrow> Cell) \<Rightarrow> Cell list \<Rightarrow> Cell list" where
  "modify_cell i f [] = []"
| "modify_cell i f (c # cs) = (if cellId c = i then f c # cs else c # modify_cell i f cs)"

definition findCell :: "string \<Rightarrow> Cell list \<Rightarrow> Cell option" where
  "findCell i cs = find (\<lambda>c. cellId c = i) cs"

text \<open>Reading, setting and deleting a property of \<open>monacoInstances\<close>.\<close>

definition editorOf :: "state \<Rightarrow> string \<Rightarrow> Editor option" where
  "editorOf st i = map_of (monacoInstances st) i"

fun set_prop :: "string \<Rightarrow> 'a \<Rightarrow> (string \<times> 'a) list \<Rightarrow> (string \<times> 'a) list" where
  "set_prop k v [] = [(k, v)]"
| "set_prop k v ((k', v') # kvs) =
     (if k' = k then (k, v) # kvs else (k', v') # set_prop k v kvs)"

definition delete_prop :: "string \<Rightarrow> (string \<times> 'a) list \<Rightarrow> (string \<times> 'a) list" where
  "delete_prop k kvs = filter (\<lambda>kv. fst kv \<noteq> k) kvs"

subsection \<open>Cell store: \<open>addCell\<close>, \<open>deleteCell\<close>, \<open>moveCell\<close>\<close>

text \<open>
  \<open>addCell(code, type, preRender, outputs, index?)\<close>, on a page whose \<open>notebook\<close> element
  exists and whose editor library is loaded. The function has no \<open>await\<close> in its body, so
  it runs to its end when called. For a pre-rendered text cell it schedules \<open>runCell\<close> with
  \<open>setTimeout\<close>; that later call is an event of its own. The order of the elements in the
  document is not modelled.
\<close>

definition addCell ::
  "string \<Rightarrow> cell_type \<Rightarrow> bool \<Rightarrow> Output list \<Rightarrow> nat option \<Rightarrow> state \<Rightarrow> state" where
  "addCell code ty preRender outs index st =
     (let cid = cellIdOf (cellCounter st);
          newCellData = \<lparr> cellId = cid, type = ty,
            mode = (if ty = Md then Some Edit else None),
            outputs = outs,
            isOutputVisible = Some (if ty = Js then outs \<noteq> [] else preRender),
            isExecuted = None, lastExecutedContent = None \<rparr>
      in st\<lparr> cellCounter := Suc (cellCounter st),
             elements := insert cid (elements st),
             monacoInstances :=
               set_prop cid \<lparr> getValue = code, hasTextFocus = False \<rparr> (monacoInstances st),
             cells := (case index of
                         Some i \<Rightarrow> insert_at i newCellData (cells st)
                       | None \<Rightarrow> cells st @ [newCellData]) \<rparr>)"

definition deleteCell :: "string \<Rightarrow> state \<Rightarrow> state" where
  "deleteCell cid st =
     st\<lparr> cells := (case findIndex (\<lambda>c. cellId c = cid) (cells st) of
                     Some idx \<Rightarrow> remove_at idx (cells st)
                   | None \<Rightarrow> cells st),
         elements := elements st - {cid},
         monacoInstances := delete_prop cid (monacoInstances st) \<rparr>"

datatype direction = Up | Down

definition moveCell :: "string \<Rightarrow> direction \<Rightarrow> state \<Rightarrow> state" where
  "moveCell cid dir st =
     (case findIndex (\<lambda>c. cellId c = cid) (cells st) of
        None \<Rightarrow> st
      | Some cellIndex \<Rightarrow>
          if dir = Up \<and> cellIndex = 0 then st
          else
            (let newIndex = (if dir = Up then cellIndex - 1 else cellIndex + 1)
             in if newIndex \<ge> length (cells st) then st
                else st\<lparr> cells :=
                  insert_at newIndex (cells st ! cellIndex) (remove_at cellIndex (cells st)) \<rparr>))"

subsection \<open>Staleness: \<open>markCellAsExecuted\<close>, \<open>markCellAsUnexecuted\<close>, \<open>checkContentChanged\<close>\<close>

definition markCellAsExecuted :: "string \<Rightarrow> string \<Rightarrow> state \<Rightarrow> state" where
  "markCellAsExecuted cid content st =
     (if findCell cid (cells st) \<noteq> None \<and> cid \<in> elements st
      then st\<lparr> cells := modify_cell cid
             (\<lambda>c. c\<lparr> isExecuted := Some True, lastExecutedContent := Some content \<rparr>) (cells st) \<rparr>
      else st)"

definition markCellAsUnexecuted :: "string \<Rightarrow> state \<Rightarrow> state" where
  "markCellAsUnexecuted cid st =
     (if findCell cid (cells st) \<noteq> None \<and> cid \<in> elements st
      then st\<lparr> cells := modify_cell cid
             (\<lambda>c. c\<lparr> isExecuted := Some False, lastExecutedContent := None \<rparr>) (cells st) \<rparr>
      else st)"

definition checkContentChanged :: "string \<Rightarrow> string \<Rightarrow> state \<Rightarrow> bool" where
  "checkContentChanged cid currentContent st =
     (case findCell cid (cells st) of
        None \<Rightarrow> True
      | Some cell \<Rightarrow>
          isExecuted cell \<noteq> Some True \<or> lastExecutedContent cell \<noteq> Some currentContent)"

text \<open>
  The content-change notification of the editor of cell \<open>cid\<close>: the editor now holds
  \<open>newText\<close>, and the handler registered by \<open>addCell\<close> reads it back with \<open>getValue\<close>.
  Only an editor that exists can send it.
\<close>

definition onDidChangeModelContent :: "string \<Rightarrow> string \<Rightarrow> state \<Rightarrow> state" where
  "onDidChangeModelContent cid newText st =
     (case editorOf st cid of
        None \<Rightarrow> st
      | Some ed \<Rightarrow>
          (let st1 = st\<lparr> monacoInstances :=
                       set_prop cid (ed\<lparr> getValue := newText \<rparr>) (monacoInstances st) \<rparr>;
               currentContent = newText
           in if checkContentChanged cid currentContent st1
              then markCellAsUnexecuted cid st1 else st1))"

text \<open>The focus notification: \<open>onDidFocusEditorText(() => { focusedCellId = cellId; })\<close>.\<close>

definition onDidFocusEditorText :: "string \<Rightarrow> state \<Rightarrow> state" where
  "onDidFocusEditorText cid st = st\<lparr> focusedCellId := Some cid \<rparr>"

subsection \<open>Focus and clipboard: \<open>getFocusedCell\<close>, \<open>cutCell\<close>, \<open>copyCell\<close>, \<open>pasteCell\<close>\<close>

text \<open>
  \<open>getFocusedCell\<close> returns a cell or \<open>null\<close> and may assign \<open>focusedCellId\<close>. The test
  \<open>if (focusedCellId)\<close> fails for \<open>null\<close> and for the empty string.
\<close>

definition getFocusedCell :: "state \<Rightarrow> Cell option \<times> state" where
  "getFocusedCell st =
     (if focusedCellId st \<noteq> None \<and> focusedCellId st \<noteq> Some []
      then (findCell (the (focusedCellId st)) (cells st), st)
      else
        (case find (\<lambda>kv. hasTextFocus (snd kv)) (monacoInstances st) of
           Some (cid, ed) \<Rightarrow> (findCell cid (cells st), st\<lparr> focusedCellId := Some cid \<rparr>)
         | None \<Rightarrow>
             (case cells st of
                [] \<Rightarrow> (None, st)
              | c # _ \<Rightarrow> (Some c, st\<lparr> focusedCellId := Some (cellId c) \<rparr>))))"

definition cutCell :: "state \<Rightarrow> state" where
  "cutCell st =
     (case getFocusedCell st of
        (None, st1) \<Rightarrow> st1
      | (Some cell, st1) \<Rightarrow>
          (let code = (case editorOf st1 (cellId cell) of Some ed \<Rightarrow> getValue ed | None \<Rightarrow> [])
           in deleteCell (cellId cell) (st1\<lparr> cellClipboard := Some (cell, code) \<rparr>)))"

definition copyCell :: "state \<Rightarrow> state" where
  "copyCell st =
     (case getFocusedCell st of
        (None, st1) \<Rightarrow> st1
      | (Some cell, st1) \<Rightarrow>
          (let code = (case editorOf st1 (cellId cell) of Some ed \<Rightarrow> getValue ed | None \<Rightarrow> [])
           in st1\<lparr> cellClipboard := Some (cell, code) \<rparr>))"

text \<open>\<open>focusedIndex + 1\<close> is \<open>0\<close> when \<open>findIndex\<close> answers \<open>-1\<close>.\<close>

definition indexAfter :: "Cell option \<Rightarrow> state \<Rightarrow> nat" where
  "indexAfter focusedCell st =
     (case focusedCell of
        None \<Rightarrow> length (cells st)
      | Some fc \<Rightarrow>
          (case findIndex (\<lambda>c. cellId c = cellId fc) (cells st) of
             Some focusedIndex \<Rightarrow> focusedIndex + 1
           | None \<Rightarrow> 0))"

definition pasteCell :: "state \<Rightarrow> state" where
  "pasteCell st =
     (case cellClipboard st of
        None \<Rightarrow> st
      | Some (cellData, code) \<Rightarrow>
          (case getFocusedCell st of
             (focusedCell, st1) \<Rightarrow>
               addCell code (type cellData)
                 (type cellData = Md \<and> mode cellData = Some Render)
                 (outputs cellData) (Some (indexAfter focusedCell st1)) st1))"

definition insertCellBelow :: "cell_type \<Rightarrow> state \<Rightarrow> state" where
  "insertCellBelow ty st =
     (case getFocusedCell st of
        (focusedCell, st1) \<Rightarrow> addCell [] ty False [] (Some (indexAfter focusedCell st1)) st1)"

definition insertCellAbove :: "cell_type \<Rightarrow> state \<Rightarrow> state" where
  "insertCellAbove ty st =
     (case getFocusedCell st of
        (focusedCell, st1) \<Rightarrow>
          (let insertIndex =
             (case focusedCell of
                None \<Rightarrow> 0
              | Some fc \<Rightarrow>
                  (case findIndex (\<lambda>c. cellId c = cellId fc) (cells st1) of
                     Some focusedIndex \<Rightarrow> focusedIndex
                   | None \<Rightarrow> 0))
           in addCell [] ty False [] (Some insertIndex) st1))"

subsection \<open>Drag and drop: the \<open>onEnd\<close> handler given to \<open>Sortable\<close>\<close>

text \<open>
  The handler splices the array \<open>cells\<close> with the two indices of the event, which are
  \<open>undefined\<close> or numbers that count elements, so not negative. Destructuring \<open>const [movedItem] = cells.splice(oldIndex, 1)\<close>
  gives \<open>undefined\<close> when nothing was removed, and \<open>cells.splice(newIndex, 0, movedItem)\<close>
  then inserts that \<open>undefined\<close>: the array is modelled with slots, \<open>None\<close> being an
  \<open>undefined\<close> entry.
\<close>

definition onEnd :: "nat option \<Rightarrow> nat option \<Rightarrow> Cell option list \<Rightarrow> Cell option list" where
  "onEnd oldIndex newIndex slots =
     (case (oldIndex, newIndex) of
        (Some old, Some new) \<Rightarrow>
          if old \<noteq> new
          then (let movedItem = (case drop old slots of [] \<Rightarrow> None | x # _ \<Rightarrow> x)
                in insert_at new movedItem (remove_at old slots))
          else slots
      | _ \<Rightarrow> slots)"

text \<open>The handler on a page state; \<open>None\<close> when the array \<open>cells\<close> now holds an
  \<open>undefined\<close> entry, which no \<open>Cell list\<close> stands for.\<close>

definition dragEnd :: "nat option \<Rightarrow> nat option \<Rightarrow> state \<Rightarrow> state option" where
  "dragEnd oldIndex newIndex st =
     map_option (\<lambda>cs. st\<lparr> cells := cs \<rparr>) (those (onEnd oldIndex newIndex (map Some (cells st))))"

subsection \<open>Execution engine: \<open>runCell\<close>, \<open>runAllCells\<close>, \<open>restartKernel\<close>\<close>

text \<open>
  The script of a code cell is built by the JavaScript runtime from the cell's text
  (\<open>new AsyncFunction('console', 'fetch', 'persistentScope', 'cellScope', body)\<close>) and is a
  parameter here: an \<open>engine\<close> answers \<open>None\<close> when the constructor throws a \<open>SyntaxError\<close>,
  and otherwise the function built. Calling that function with the shared scope yields the
  calls it made on the console it was given (each argument already rendered as text by
  \<open>String\<close> or \<open>JSON.stringify\<close>), the scope it left, and the message of the failure its
  promise rejected with, if any. A script that never settles is not modelled.
\<close>

datatype console_call =
  ConsoleLog "string list" | ConsoleError "string list" | ConsoleImage string "string option"

record script_run =
  calls :: "console_call list"
  scope_after :: scope
  rejection :: "string option"

type_synonym script = "scope \<Rightarrow> script_run"

type_synonym engine = "string \<Rightarrow> script option"

datatype js_exn = SyntaxError | TypeError

datatype completion = Returned | Threw js_exn

text \<open>\<open>args.join(' ')\<close>.\<close>

fun join_space :: "string list \<Rightarrow> string" where
  "join_space [] = []"
| "join_space [a] = a"
| "join_space (a # b # as) = a @ CHR '' '' # join_space (b # as)"

text \<open>The three methods of \<open>sandboxConsole\<close>: each pushes one output on the cell and
  \<open>showOutput\<close> makes the outputs visible.\<close>

definition consoleOutput :: "console_call \<Rightarrow> Output" where
  "consoleOutput call =
     (case call of
        ConsoleLog args \<Rightarrow> Log (join_space args)
      | ConsoleError args \<Rightarrow> Error (join_space args)
      | ConsoleImage base64 mime \<Rightarrow>
          Image base64 (case mime of None \<Rightarrow> ''image/png'' | Some m \<Rightarrow> m))"

definition sandboxConsole :: "string \<Rightarrow> state \<Rightarrow> console_call \<Rightarrow> state" where
  "sandboxConsole cid st call =
     st\<lparr> cells := modify_cell cid
       (\<lambda>c. c\<lparr> outputs := outputs c @ [consoleOutput call], isOutputVisible := Some True \<rparr>)
       (cells st) \<rparr>"

text \<open>\<open>editor.focus()\<close>: the widget takes the text focus and its focus handler runs.\<close>

definition focusEditor :: "string \<Rightarrow> state \<Rightarrow> state" where
  "focusEditor cid st =
     onDidFocusEditorText cid
       (st\<lparr> monacoInstances :=
          map (\<lambda>kv. (fst kv, (snd kv)\<lparr> hasTextFocus := (fst kv = cid) \<rparr>)) (monacoInstances st) \<rparr>)"

text \<open>
  \<open>runCell(cellId)\<close>. The result is how the call completed and the state it left. The
  script is constructed before the \<open>try\<close> block; the \<open>try\<close> block awaits the script and its
  \<open>catch\<close> reports the rejection on the sandbox console.
\<close>

definition runCell :: "engine \<Rightarrow> string \<Rightarrow> state \<Rightarrow> completion \<times> state" where
  "runCell eng cid st =
     (case (findCell cid (cells st), editorOf st cid) of
        (Some cell, Some editor) \<Rightarrow>
          if cid \<notin> elements st then (Returned, st)
          else
            (let code = getValue editor in
             if type cell = Md then
               (if mode cell = Some Edit
                then (Returned, st\<lparr> cells := modify_cell cid
                        (\<lambda>c. c\<lparr> mode := Some Render, isOutputVisible := Some True \<rparr>) (cells st) \<rparr>)
                else (Returned, focusEditor cid (st\<lparr> cells := modify_cell cid
                        (\<lambda>c. c\<lparr> mode := Some Edit, isOutputVisible := Some False \<rparr>) (cells st) \<rparr>)))
             else
               (let st1 = st\<lparr> cells := modify_cell cid (\<lambda>c. c\<lparr> outputs := [] \<rparr>) (cells st) \<rparr> in
                case eng code of
                  None \<Rightarrow> (Threw SyntaxError, st1)
                | Some fn \<Rightarrow>
                    (let r = fn (persistentScope st1);
                         st2 = (foldl (sandboxConsole cid) st1 (calls r))
                                 \<lparr> persistentScope := scope_after r \<rparr>;
                         st3 = (case rejection r of
                                  None \<Rightarrow> st2
                                | Some errorMessage \<Rightarrow>
                                    sandboxConsole cid st2
                                      (ConsoleError [''Uncaught:'', errorMessage]))
                     in (Returned, markCellAsExecuted cid code st3))))
      | _ \<Rightarrow> (Returned, st))"

text \<open>
  \<open>runAllCells\<close>: the code cells in document order, each awaited before the next; an
  exception of one run ends the loop. \<open>runCell\<close> changes neither the ids, the types nor
  the order of the cells, so the loop visits the ids of the code cells it started with.
\<close>

fun runCells :: "engine \<Rightarrow> string list \<Rightarrow> state \<Rightarrow> completion \<times> state" where
  "runCells eng [] st = (Returned, st)"
| "runCells eng (cid # cids) st =
     (case runCell eng cid st of
        (Returned, st1) \<Rightarrow> runCells eng cids st1
      | (Threw e, st1) \<Rightarrow> (Threw e, st1))"

definition runAllCells :: "engine \<Rightarrow> state \<Rightarrow> completion \<times> state" where
  "runAllCells eng st = runCells eng (map cellId (filter (\<lambda>c. type c \<noteq> Md) (cells st))) st"

text \<open>
  The loop \<open>for (const key in persistentScope) { if (hasOwnProperty.call(persistentScope,
  key)) delete persistentScope[key]; }\<close>. It meets the enumerable keys only, and every key
  it meets is an own key. The source is a module and so strict code, where \<open>delete\<close> throws
  a \<open>TypeError\<close> for a property that is not configurable: the loop ends there, with the keys
  met before deleted and the others in place. The result is how the loop completed and
  the properties it left.
\<close>

fun deleteOwnKeys :: "scope \<Rightarrow> completion \<times> scope" where
  "deleteOwnKeys [] = (Returned, [])"
| "deleteOwnKeys ((key, p) # rest) =
     (if enumerable p then
        (if configurable p then deleteOwnKeys rest
         else (Threw TypeError, (key, p) # rest))
      else
        (case deleteOwnKeys rest of (c, rest') \<Rightarrow> (c, (key, p) # rest')))"

text \<open>
  \<open>restartKernel\<close>; the first argument is the answer of the \<open>confirm\<close> dialog. The outputs
  are cleared after the loop over the keys, so not at all when that loop throws.
\<close>

definition restartKernel :: "bool \<Rightarrow> state \<Rightarrow> completion \<times> state" where
  "restartKernel confirmed st =
     (if \<not> confirmed then (Returned, st)
      else
        (case deleteOwnKeys (persistentScope st) of
           (Threw e, properties) \<Rightarrow> (Threw e, st\<lparr> persistentScope := properties \<rparr>)
         | (Returned, properties) \<Rightarrow>
             (Returned,
              st\<lparr> persistentScope := properties,
                  cells := map (\<lambda>cell. if type cell = Js then cell\<lparr> outputs := [] \<rparr> else cell)
                               (cells st) \<rparr>)))"

text \<open>\<open>restartAndRunAll\<close> has the same loops in its body and then awaits \<open>runAllCells\<close>.\<close>

definition restartAndRunAll :: "engine \<Rightarrow> bool \<Rightarrow> state \<Rightarrow> completion \<times> state" where
  "restartAndRunAll eng confirmed st =
     (if \<not> confirmed then (Returned, st)
      else
        (case deleteOwnKeys (persistentScope st) of
           (Threw e, properties) \<Rightarrow> (Threw e, st\<lparr> persistentScope := properties \<rparr>)
         | (Returned, properties) \<Rightarrow>
             runAllCells eng
               (st\<lparr> persistentScope := properties,
                   cells := map (\<lambda>cell. if type cell = Js then cell\<lparr> outputs := [] \<rparr> else cell)
                                (cells st) \<rparr>)))"

subsection \<open>Document parser: \<open>parseNotebookFile\<close>\<close>

text \<open>The records pushed on \<open>cellsData\<close>: a code cell has \<open>outputs\<close> and no \<open>mode\<close>, a
  text cell has \<open>mode\<close> and no \<open>outputs\<close>.\<close>

record CellData =
  type_d :: cell_type
  code_d :: string
  mode_d :: "cell_mode option"
  outputs_d :: "Output list option"

text \<open>The local variables of \<open>parseNotebookFile\<close>.\<close>

record parser =
  cellsData :: "CellData list"
  jsCodeLines :: "string list"
  mdContent :: string
  outputContent :: string
  inCodeBlock :: bool
  inMdBlock :: bool
  inOutputBlock :: bool
  mdMode :: cell_mode

definition parser_init :: parser where
  "parser_init = \<lparr> cellsData = [], jsCodeLines = [], mdContent = [], outputContent = [],
     inCodeBlock = False, inMdBlock = False, inOutputBlock = False, mdMode = Edit \<rparr>"

definition addJsCell :: "parser \<Rightarrow> parser" where
  "addJsCell ps =
     (if length (jsCodeLines ps) > 0
      then ps\<lparr> cellsData := cellsData ps @
                  [\<lparr> type_d = Js, code_d = trim (join_lines (jsCodeLines ps)),
                     mode_d = None, outputs_d = Some [] \<rparr>],
               jsCodeLines := [] \<rparr>
      else ps)"

definition addMdCell :: "parser \<Rightarrow> parser" where
  "addMdCell ps =
     (if trim (mdContent ps) \<noteq> []
      then ps\<lparr> cellsData := cellsData ps @
                  [\<lparr> type_d = Md, code_d = trim (mdContent ps),
                     mode_d = Some (mdMode ps), outputs_d = None \<rparr>],
               mdContent := [] \<rparr>
      else ps)"

text \<open>\<open>[...cellsData].reverse().find((c) => c.type === 'js')\<close> is the last code cell; the
  output is pushed on its \<open>outputs\<close>. The function below does so for the first code cell of
  a list and is applied to the reversed list.\<close>

fun push_first_js :: "Output \<Rightarrow> CellData list \<Rightarrow> CellData list" where
  "push_first_js out [] = []"
| "push_first_js out (c # cs) =
     (if type_d c = Js
      then c\<lparr> outputs_d := Some ((case outputs_d c of None \<Rightarrow> [] | Some os \<Rightarrow> os) @ [out]) \<rparr> # cs
      else c # push_first_js out cs)"

definition addOutput :: "parser \<Rightarrow> parser" where
  "addOutput ps =
     (if trim (outputContent ps) \<noteq> [] \<and> length (cellsData ps) > 0
      then ps\<lparr> cellsData :=
                  rev (push_first_js (Log (trim (outputContent ps))) (rev (cellsData ps))),
               outputContent := [] \<rparr>
      else ps)"

text \<open>\<open>acc += (acc ? '\n' : '') + line\<close>.\<close>

definition append_line :: "string \<Rightarrow> string \<Rightarrow> string" where
  "append_line acc line = acc @ (if acc \<noteq> [] then [nl] else []) @ line"

text \<open>\<open>line.replace(/\*\/\s*$/, '')\<close>: the leftmost \<open>*/\<close> that only white space follows is
  removed with that white space.\<close>

fun strip_close :: "string \<Rightarrow> string" where
  "strip_close [] = []"
| "strip_close (c # cs) =
     (if startsWith (c # cs) ''*/'' \<and> list_all isSpace (drop 2 (c # cs)) then []
      else c # strip_close cs)"

text \<open>The callback of \<open>lines.forEach\<close>.\<close>

definition parse_line :: "parser \<Rightarrow> string \<Rightarrow> parser" where
  "parse_line ps line =
     (let trimmed = trim line in
      if trimmed = ''// [CODE STARTS]'' then
        (addOutput (addMdCell ps))\<lparr> inCodeBlock := True, inMdBlock := False, inOutputBlock := False \<rparr>
      else if trimmed = ''// [CODE ENDS]'' then
        (addJsCell ps)\<lparr> inCodeBlock := False \<rparr>
      else if startsWith trimmed ''/* Markdown'' then
        (addOutput (addJsCell ps))
          \<lparr> mdMode := (if includes_str trimmed ''(render)'' then Render else Edit),
            inMdBlock := True, inCodeBlock := False, inOutputBlock := False \<rparr>
      else if startsWith trimmed ''/* Output'' then
        (addMdCell (addJsCell ps))\<lparr> inOutputBlock := True, inCodeBlock := False, inMdBlock := False \<rparr>
      else if endsWith trimmed ''*/'' then
        (let contentLine = trim (strip_close line);
             ps1 = (if contentLine \<noteq> [] then
                      (if inMdBlock ps
                       then ps\<lparr> mdContent := append_line (mdContent ps) contentLine \<rparr>
                       else if inOutputBlock ps
                       then ps\<lparr> outputContent := append_line (outputContent ps) contentLine \<rparr>
                       else ps)
                    else ps);
             ps2 = (if inMdBlock ps1 then addMdCell ps1
                    else if inOutputBlock ps1 then addOutput ps1 else ps1)
         in ps2\<lparr> inMdBlock := False, inOutputBlock := False \<rparr>)
      else if inCodeBlock ps then ps\<lparr> jsCodeLines := jsCodeLines ps @ [line] \<rparr>
      else if inMdBlock ps then ps\<lparr> mdContent := append_line (mdContent ps) line \<rparr>
      else if inOutputBlock ps then ps\<lparr> outputContent := append_line (outputContent ps) line \<rparr>
      else ps)"

definition parse_lines :: "parser \<Rightarrow> string list \<Rightarrow> parser" where
  "parse_lines ps ls = foldl parse_line ps ls"

definition parseNotebookFile :: "string \<Rightarrow> CellData list" where
  "parseNotebookFile content =
     cellsData (addOutput (addMdCell (addJsCell (parse_lines parser_init (split_lines content)))))"

text \<open>The arguments with which the loader calls \<open>addCell\<close> for a parsed record:
  \<open>addCell(cellData.code, cellData.type, cellData.mode === 'render', cellData.outputs || [])\<close>.\<close>

definition dataArgs :: "CellData \<Rightarrow> string \<times> cell_type \<times> bool \<times> Output list" where
  "dataArgs d =
     (code_d d, type_d d, mode_d d = Some Render,
      (case outputs_d d of None \<Rightarrow> [] | Some os \<Rightarrow> os))"

subsection \<open>Document serializer: \<open>downloadNotebook\<close>\<close>

text \<open>The two replacements: characters of \<open>[<>&"']\<close> become entities in an output text,
  characters of \<open>[<>"']\<close> are dropped from an image source.\<close>

definition escapeChar :: "char \<Rightarrow> string" where
  "escapeChar c =
     (if c = CHR ''<'' then ''&lt;''
      else if c = CHR ''>'' then ''&gt;''
      else if c = CHR ''&'' then ''&amp;''
      else if c = CHR 0x22 then ''&quot;''
      else if c = CHR 0x27 then ''&#x27;''
      else [c])"

definition sanitizedOutput :: "string \<Rightarrow> string" where
  "sanitizedOutput dat = concat (map escapeChar dat)"

definition sanitizedSrc :: "string \<Rightarrow> string" where
  "sanitizedSrc imgSrc =
     filter (\<lambda>c. c \<noteq> CHR ''<'' \<and> c \<noteq> CHR ''>'' \<and> c \<noteq> CHR 0x22 \<and> c \<noteq> CHR 0x27) imgSrc"

definition outputText :: "Output \<Rightarrow> string" where
  "outputText output =
     (case output of
        Image dat mime \<Rightarrow>
          (let imgSrc = (if startsWith dat ''data:'' then dat
                         else ''data:'' @ mime @ '';base64,'' @ dat)
           in ''<img src='' @ [CHR 0x22] @ sanitizedSrc imgSrc @ [CHR 0x22] @
              '' style='' @ [CHR 0x22] @ ''height:auto; width:100%;'' @ [CHR 0x22] @ '' />'' @
              [nl, nl])
      | Log dat \<Rightarrow> sanitizedOutput dat @ [nl, nl]
      | Error dat \<Rightarrow> sanitizedOutput dat @ [nl, nl])"

text \<open>What one turn of \<open>cells.forEach\<close> appends to \<open>content\<close>, for a cell and the text of
  its editor.\<close>

definition cellText :: "Cell \<Rightarrow> string \<Rightarrow> string" where
  "cellText cell code =
     (if type cell = Md then
        (let marker = (if mode cell = Some Render then ''/* Markdown (render)'' else ''/* Markdown'')
         in marker @ [nl] @ code @ [nl] @ ''*/'' @ [nl, nl])
      else
        ''// [CODE STARTS]'' @ [nl] @ code @ [nl] @ ''// [CODE ENDS]'' @ [nl, nl] @
        (if length (outputs cell) > 0
         then ''/* Output Sample'' @ [nl, nl] @ concat (map outputText (outputs cell)) @
              ''*/'' @ [nl, nl]
         else []))"

text \<open>The loop over \<open>cells\<close>; \<open>editor.getValue()\<close> throws a \<open>TypeError\<close> for a cell without
  an editor.\<close>

fun downloadLoop :: "state \<Rightarrow> Cell list \<Rightarrow> string \<Rightarrow> js_exn + string" where
  "downloadLoop st [] content = Inr content"
| "downloadLoop st (cell # rest) content =
     (case editorOf st (cellId cell) of
        None \<Rightarrow> Inl TypeError
      | Some editor \<Rightarrow> downloadLoop st rest (content @ cellText cell (getValue editor)))"

text \<open>The text of the downloaded file, \<open>content.trim()\<close>.\<close>

definition downloadNotebook :: "state \<Rightarrow> js_exn + string" where
  "downloadNotebook st =
     (case downloadLoop st (cells st) [] of
        Inl e \<Rightarrow> Inl e
      | Inr content \<Rightarrow> Inr (trim content))"

text \<open>The arguments with which \<open>pasteCell\<close> calls \<open>addCell\<close> for a cell and its text; the
  loader's arguments for a parsed record are compared with these.\<close>

definition cellArgs :: "Cell \<Rightarrow> string \<Rightarrow> string \<times> cell_type \<times> bool \<times> Output list" where
  "cellArgs cell code =
     (code, type cell, type cell = Md \<and> mode cell = Some Render, outputs cell)"

subsection \<open>The page at start, and sample inputs\<close>

text \<open>The module-level variables as the source initialises them.\<close>

definition initial_state :: state where
  "initial_state = \<lparr> cells = [], cellCounter = 0, monacoInstances = [], elements = {},
     cellClipboard = None, focusedCellId = None, persistentScope = [] \<rparr>"

text \<open>\<open>String(persistentScope.x)\<close> for a property that is absent or holds one of the
  sample values.\<close>

fun to_text :: "js_value option \<Rightarrow> string" where
  "to_text None = ''undefined''"
| "to_text (Some (JsString s)) = s"
| "to_text (Some (JsNumber n)) = (if n < 0 then ''-'' @ decimal (nat (- n)) else decimal (nat n))"

text \<open>
  How the sample scripts change the scope. An assignment \<open>persistentScope.key = v\<close> sets the
  value of the property, or adds it as enumerable and configurable. The call
  \<open>Object.defineProperty(persistentScope, key, {value: v, configurable: true})\<close> adds the
  property as not enumerable, or sets the value of one that is there and configurable.
  \<open>Object.freeze(persistentScope)\<close> makes every property not configurable. Each is what the
  runtime does on the scopes of the examples, where no property is read-only when assigned
  to and none is redefined.
\<close>

definition assign_property :: "string \<Rightarrow> js_value \<Rightarrow> scope \<Rightarrow> scope" where
  "assign_property key v s =
     set_prop key
       ((case map_of s key of
           Some p \<Rightarrow> p
         | None \<Rightarrow> \<lparr> prop_value = v, enumerable = True, configurable = True \<rparr>)
        \<lparr> prop_value := v \<rparr>) s"

definition define_hidden_property :: "string \<Rightarrow> js_value \<Rightarrow> scope \<Rightarrow> scope" where
  "define_hidden_property key v s =
     set_prop key
       ((case map_of s key of
           Some p \<Rightarrow> p
         | None \<Rightarrow> \<lparr> prop_value = v, enumerable = False, configurable = True \<rparr>)
        \<lparr> prop_value := v \<rparr>) s"

definition freeze_scope :: "scope \<Rightarrow> scope" where
  "freeze_scope s = map (\<lambda>kp. (fst kp, (snd kp)\<lparr> configurable := False \<rparr>)) s"

text \<open>The cell text
  \<open>Object.defineProperty(persistentScope, "x", {value: 1, configurable: true})\<close>.\<close>

definition hidden_write_text :: string where
  "hidden_write_text =
     ''Object.defineProperty(persistentScope, '' @ [CHR 0x22] @ ''x'' @ [CHR 0x22] @
     '', {value: 1, configurable: true})''"

text \<open>
  What a JavaScript runtime does with ten cell texts, for the examples: three that store
  in the shared scope (by assignment to \<open>x\<close> and to \<open>y\<close>, and by defining \<open>x\<close> as a property
  that is not enumerable), one that assigns and then freezes the scope, a read of \<open>x\<close>, a
  computation, two logs, a statement that throws inside the generated \<open>try\<close> (its \<open>catch\<close>
  prints the error on the console), a text that closes the generated \<open>try\<close> early and throws
  outside it (the promise rejects), and a text that is no script at all. No example uses
  another text.
\<close>

definition sample_engine :: engine where
  "sample_engine code =
     (if code = ''persistentScope.x = 1'' then
        Some (\<lambda>s. \<lparr> calls = [], scope_after = assign_property ''x'' (JsNumber 1) s,
                   rejection = None \<rparr>)
      else if code = ''persistentScope.y = 2'' then
        Some (\<lambda>s. \<lparr> calls = [], scope_after = assign_property ''y'' (JsNumber 2) s,
                   rejection = None \<rparr>)
      else if code = hidden_write_text then
        Some (\<lambda>s. \<lparr> calls = [], scope_after = define_hidden_property ''x'' (JsNumber 1) s,
                   rejection = None \<rparr>)
      else if code = ''persistentScope.x = 1; Object.freeze(persistentScope)'' then
        Some (\<lambda>s. \<lparr> calls = [], scope_after = freeze_scope (assign_property ''x'' (JsNumber 1) s),
                   rejection = None \<rparr>)
      else if code = ''console.log(persistentScope.x)'' then
        Some (\<lambda>s. \<lparr> calls = [ConsoleLog [to_text (scope_get s ''x'')]], scope_after = s,
                   rejection = None \<rparr>)
      else if code = ''console.log(1+1)'' then
        Some (\<lambda>s. \<lparr> calls = [ConsoleLog [''2'']], scope_after = s, rejection = None \<rparr>)
      else if code = ''console.log(1); console.log(2)'' then
        Some (\<lambda>s. \<lparr> calls = [ConsoleLog [''1''], ConsoleLog [''2'']], scope_after = s,
                   rejection = None \<rparr>)
      else if code = ''throw new Error(1)'' then
        Some (\<lambda>s. \<lparr> calls = [ConsoleError [''Error: 1'']], scope_after = s, rejection = None \<rparr>)
      else if code = ''} finally { throw new Error(2) } try {'' then
        Some (\<lambda>s. \<lparr> calls = [], scope_after = s, rejection = Some ''2'' \<rparr>)
      else if code = ''('' then None
      else Some (\<lambda>s. \<lparr> calls = [], scope_after = s, rejection = None \<rparr>))"



definition freezer_page :: state where
  "freezer_page =
     addCell ''console.log(persistentScope.x)'' Js False [] None
       (addCell ''persistentScope.x = 1; Object.freeze(persistentScope)'' Js False [] None
          initial_state)"

text \<open>A page with one code cell whose text is no script.\<close>

definition broken_page :: state where
  "broken_page = addCell ''('' Js False [] None initial_state"

text \<open>A page with one code cell that has been run, and one rendered text cell.\<close>

definition executed_page :: state where
  "executed_page =
     snd (runCell sample_engine ''cell1''
       (snd (runCell sample_engine ''cell0''
         (addCell ''# title'' Md False [] None
           (addCell ''console.log(1+1)'' Js False [] None initial_state)))))"


text \<open>A scope that the loop of \<open>restartKernel\<close> gets through: every enumerable property
  is configurable, as every property made by an assignment is until the object is frozen
  or sealed.\<close>

definition clearable :: "scope \<Rightarrow> bool" where
  "clearable s = list_all (\<lambda>kp. enumerable (snd kp) \<longrightarrow> configurable (snd kp)) s"

text \<open>Whether a code cell with this id can be run: the cell, its editor holding \<open>code\<close>
  and its elements exist.\<close>

definition runnable_code_cell :: "state \<Rightarrow> string \<Rightarrow> string \<Rightarrow> bool" where
  "runnable_code_cell st cid code =
     (map_option type (findCell cid (cells st)) = Some Js \<and>
      map_option getValue (editorOf st cid) = Some code \<and>
      cid \<in> elements st)"

text \<open>The outputs, and the execution state, of the cell with an id.\<close>

definition outputsOf :: "state \<Rightarrow> string \<Rightarrow> Output list option" where
  "outputsOf st cid = map_option outputs (findCell cid (cells st))"

definition executionState :: "state \<Rightarrow> string \<Rightarrow> (bool option \<times> string option) option" where
  "executionState st cid =
     map_option (\<lambda>c. (isExecuted c, lastExecutedContent c)) (findCell cid (cells st))"

text \<open>A page with two empty code cells; the same page after the first cell was focused
  and cut; pages with one and with four empty code cells.\<close>

definition two_cells_page :: state where
  "two_cells_page = addCell [] Js False [] None (addCell [] Js False [] None initial_state)"

definition stale_focus_page :: state where
  "stale_focus_page = cutCell (onDidFocusEditorText ''cell0'' two_cells_page)"

definition one_cell_page :: state where
  "one_cell_page = addCell [] Js False [] None initial_state"

definition four_cells_page :: state where
  "four_cells_page = addCell [] Js False [] None (addCell [] Js False [] None two_cells_page)"

subsection \<open>Sequences of store operations\<close>

text \<open>
  The operations on the array \<open>cells\<close>: \<open>addCell\<close>, \<open>deleteCell\<close>, \<open>moveCell\<close> and the drag
  handler with two numbers. A sequence of them is run with two counters beside the state:
  the cells created, and the cells deleted (a \<open>deleteCell\<close> of an id that is not in the
  array deletes nothing). The run ends with \<open>None\<close> when the array holds an \<open>undefined\<close>
  entry.
\<close>

datatype store_op =
  Insert string cell_type bool "Output list" "nat option"
| Delete string
| Move string direction
| Reorder nat nat

fun apply_op :: "store_op \<Rightarrow> state \<Rightarrow> state option" where
  "apply_op (Insert code ty preRender outs index) st = Some (addCell code ty preRender outs index st)"
| "apply_op (Delete cid) st = Some (deleteCell cid st)"
| "apply_op (Move cid dir) st = Some (moveCell cid dir st)"
| "apply_op (Reorder old new) st = dragEnd (Some old) (Some new) st"

fun created_by :: "store_op \<Rightarrow> nat" where
  "created_by (Insert code ty preRender outs index) = 1"
| "created_by _ = 0"

fun deleted_by :: "store_op \<Rightarrow> state \<Rightarrow> nat" where
  "deleted_by (Delete cid) st = (if findCell cid (cells st) \<noteq> None then 1 else 0)"
| "deleted_by _ st = 0"

fun run_ops :: "store_op list \<Rightarrow> state \<Rightarrow> (state \<times> nat \<times> nat) option" where
  "run_ops [] st = Some (st, 0, 0)"
| "run_ops (op # ops) st =
     (case apply_op op st of
        None \<Rightarrow> None
      | Some st1 \<Rightarrow>
          (case run_ops ops st1 of
             None \<Rightarrow> None
           | Some (st2, created, deleted) \<Rightarrow>
               Some (st2, created_by op + created, deleted_by op st + deleted)))"

text \<open>A valid store: no id twice, and every id is one that \<open>addCell\<close> has handed out.\<close>

definition valid_store :: "state \<Rightarrow> bool" where
  "valid_store st =
     (distinct (map cellId (cells st)) \<and>
      list_all (\<lambda>c. cellId c \<in> set (map cellIdOf [0..<cellCounter st])) (cells st))"

text \<open>Every cell of the array has its elements in the document and its editor.\<close>

definition page_consistent :: "state \<Rightarrow> bool" where
  "page_consistent st =
     list_all (\<lambda>c. cellId c \<in> elements st \<and> editorOf st (cellId c) \<noteq> None) (cells st)"

subsection \<open>Vocabulary for the parser and the serializer\<close>

text \<open>A parsed record is filled: a text cell has a non-empty text, and every output is a
  log with a non-empty text.\<close>

definition filled :: "CellData \<Rightarrow> bool" where
  "filled d =
     ((type_d d = Js \<or> code_d d \<noteq> []) \<and>
      list_all (\<lambda>out. case out of Log t \<Rightarrow> t \<noteq> [] | Error t \<Rightarrow> False | Image t m \<Rightarrow> False)
        (case outputs_d d of None \<Rightarrow> [] | Some os \<Rightarrow> os))"

text \<open>Two documents: a code block that holds one line with one space, and a code block
  that holds no line.\<close>

definition blank_code_document :: string where
  "blank_code_document = ''// [CODE STARTS]'' @ [nl] @ '' '' @ [nl] @ ''// [CODE ENDS]''"

definition empty_code_document :: string where
  "empty_code_document = ''// [CODE STARTS]'' @ [nl] @ ''// [CODE ENDS]''"

text \<open>A line that \<open>parse_line\<close> takes for a marker: the conditions of its first five
  branches.\<close>

definition marker_line :: "string \<Rightarrow> bool" where
  "marker_line line =
     (let trimmed = trim line in
      trimmed = ''// [CODE STARTS]'' \<or> trimmed = ''// [CODE ENDS]'' \<or>
      startsWith trimmed ''/* Markdown'' \<or> startsWith trimmed ''/* Output'' \<or>
      endsWith trimmed ''*/'')"

text \<open>A text that passes through a block unchanged: it has no white space at its ends
  and none of its lines is taken for a marker.\<close>

definition plain_text :: "string \<Rightarrow> bool" where
  "plain_text s = (trim s = s \<and> list_all (\<lambda>l. \<not> marker_line l) (split_lines s))"

text \<open>Outputs that pass through an output block unchanged: none, or one log whose text
  is non-empty, plain, and free of the characters the serializer escapes.\<close>

definition single_plain_log :: "Output list \<Rightarrow> bool" where
  "single_plain_log outs =
     (case outs of
        [] \<Rightarrow> True
      | [Log d] \<Rightarrow> d \<noteq> [] \<and> plain_text d \<and> sanitizedOutput d = d
      | _ \<Rightarrow> False)"

definition roundtrippable :: "Cell \<Rightarrow> string \<Rightarrow> bool" where
  "roundtrippable cell code =
     (plain_text code \<and>
      (if type cell = Md then code \<noteq> [] \<and> outputs cell = []
       else single_plain_log (outputs cell)))"

text \<open>The text of a cell's editor, as \<open>cutCell\<close> reads it.\<close>

definition editorText :: "state \<Rightarrow> Cell \<Rightarrow> string" where
  "editorText st cell =
     (case editorOf st (cellId cell) of Some editor \<Rightarrow> getValue editor | None \<Rightarrow> [])"

definition roundtrip_ready :: "state \<Rightarrow> bool" where
  "roundtrip_ready st =
     list_all (\<lambda>c. editorOf st (cellId c) \<noteq> None \<and> roundtrippable c (editorText st c)) (cells st)"

text \<open>A page whose only code cell has been run and has logged twice; a page with a
  rendered text cell, a code cell that has logged once, and an empty code cell.\<close>

definition two_logs_page :: state where
  "two_logs_page =
     snd (runCell sample_engine ''cell0''
       (addCell ''console.log(1); console.log(2)'' Js False [] None initial_state))"

definition mixed_page :: state where
  "mixed_page =
     addCell [] Js False [] None
       (snd (runCell sample_engine ''cell1''
         (snd (runCell sample_engine ''cell0''
           (addCell ''console.log(1+1)'' Js False [] None
             (addCell (''# title'' @ [nl, nl] @ ''body'') Md False [] None initial_state))))))"

text \<open>The parser between two blocks: nothing pending, no block open.\<close>

definition idle_parser :: "CellData list \<Rightarrow> cell_mode \<Rightarrow> parser" where
  "idle_parser cs m = \<lparr> cellsData = cs, jsCodeLines = [], mdContent = [], outputContent = [],
     inCodeBlock = False, inMdBlock = False, inOutputBlock = False, mdMode = m \<rparr>"

text \<open>The lines the serializer writes for a cell that passes through unchanged, without
  the two empty lines that follow every block.\<close>

definition block_lines :: "Cell \<Rightarrow> string \<Rightarrow> string list" where
  "block_lines cell code =
     (if type cell = Md then
        (if mode cell = Some Render then ''/* Markdown (render)'' else ''/* Markdown'') #
        split_lines code @ [''*/'']
      else
        ''// [CODE STARTS]'' # split_lines code @ [''// [CODE ENDS]''] @
        (case outputs cell of
           [] \<Rightarrow> []
         | out # _ \<Rightarrow>
             [[], ''/* Output Sample'', []] @
             split_lines (case out of Log d \<Rightarrow> d | Error d \<Rightarrow> d | Image d m \<Rightarrow> d) @
             [[], ''*/'']))"

text \<open>The record the parser makes of such a cell.\<close>

definition parsed_cell :: "Cell \<Rightarrow> string \<Rightarrow> CellData" where
  "parsed_cell cell code =
     (if type cell = Md
      then \<lparr> type_d = Md, code_d = code,
             mode_d = Some (if mode cell = Some Render then Render else Edit), outputs_d = None \<rparr>
      else \<lparr> type_d = Js, code_d = code, mode_d = None, outputs_d = Some (outputs cell) \<rparr>)"

text \<open>The lines of a document: the blocks with one empty line between them.\<close>

fun document_lines :: "(Cell \<times> string) list \<Rightarrow> string list" where
  "document_lines [] = []"
| "document_lines [(cell, code)] = block_lines cell code"
| "document_lines ((cell, code) # rest) = block_lines cell code @ [] # document_lines rest"

text \<open>A code cell with given outputs, and a text cell in edit mode, as \<open>addCell\<close> makes
  them.\<close>

definition sample_code_cell :: "Output list \<Rightarrow> Cell" where
  "sample_code_cell outs = \<lparr> cellId = ''cell0'', type = Js, mode = None, outputs = outs,
     isOutputVisible = Some (outs \<noteq> []), isExecuted = None, lastExecutedContent = None \<rparr>"

definition sample_text_cell :: Cell where
  "sample_text_cell = \<lparr> cellId = ''cell0'', type = Md, mode = Some Edit, outputs = [],
     isOutputVisible = Some False, isExecuted = None, lastExecutedContent = None \<rparr>"

section \<open>Properties\<close>

subsection \<open>Finding and changing a cell\<close>

lemma findCell_modify_same:
  assumes "\<And>c. cellId (f c) = cellId c"
  shows "findCell i (modify_cell i f cs) = map_option f (findCell i cs)"
  using assms by (induction cs) (simp_all add: findCell_def)

lemma findCell_modify_other:
  assumes "j \<noteq> i" and "\<And>c. cellId (f c) = cellId c"
  shows "findCell j (modify_cell i f cs) = findCell j cs"
  using assms by (induction cs) (simp_all add: findCell_def)

lemma map_cellId_modify:
  assumes "\<And>c. cellId (f c) = cellId c"
  shows "map cellId (modify_cell i f cs) = map cellId cs"
  using assms by (induction cs) simp_all

lemma length_modify_cell: "length (modify_cell i f cs) = length cs"
  by (induction cs) simp_all

lemma findCell_map:
  assumes "\<And>c. cellId (f c) = cellId c"
  shows "findCell i (map f cs) = map_option f (findCell i cs)"
  using assms by (induction cs) (simp_all add: findCell_def)

lemma map_of_set_prop: "map_of (set_prop k v kvs) = (map_of kvs)(k \<mapsto> v)"
  by (induction kvs) (auto simp: fun_upd_twist)

subsection \<open>Staleness\<close>

lemma markCellAsUnexecuted_found:
  assumes "findCell cid (cells st) = Some c" and "cid \<in> elements st"
  shows "findCell cid (cells (markCellAsUnexecuted cid st)) =
           Some (c\<lparr> isExecuted := Some False, lastExecutedContent := None \<rparr>)"
  using assms by (simp add: markCellAsUnexecuted_def findCell_modify_same)

lemma content_change_cases:
  assumes "findCell cid (cells st) = Some c" and "cid \<in> elements st"
    and "editorOf st cid \<noteq> None"
  shows "findCell cid (cells (onDidChangeModelContent cid t st)) =
           Some (if isExecuted c \<noteq> Some True \<or> lastExecutedContent c \<noteq> Some t
                 then c\<lparr> isExecuted := Some False, lastExecutedContent := None \<rparr> else c)"
    and "elements (onDidChangeModelContent cid t st) = elements st"
    and "editorOf (onDidChangeModelContent cid t st) cid \<noteq> None"
proof -
  from assms(3) obtain ed where ed: "editorOf st cid = Some ed" by auto
  let ?st1 = "st\<lparr> monacoInstances := set_prop cid (ed\<lparr> getValue := t \<rparr>) (monacoInstances st) \<rparr>"
  have found: "findCell cid (cells ?st1) = Some c" and el: "cid \<in> elements ?st1"
    using assms by simp_all
  show "findCell cid (cells (onDidChangeModelContent cid t st)) =
           Some (if isExecuted c \<noteq> Some True \<or> lastExecutedContent c \<noteq> Some t
                 then c\<lparr> isExecuted := Some False, lastExecutedContent := None \<rparr> else c)"
    using ed found markCellAsUnexecuted_found [OF found el]
    by (simp add: onDidChangeModelContent_def checkContentChanged_def Let_def)
  show "elements (onDidChangeModelContent cid t st) = elements st"
    using ed by (simp add: onDidChangeModelContent_def markCellAsUnexecuted_def Let_def)
  show "editorOf (onDidChangeModelContent cid t st) cid \<noteq> None"
    using ed
    by (simp add: onDidChangeModelContent_def markCellAsUnexecuted_def Let_def editorOf_def
        map_of_set_prop)
qed

text \<open>
  C6. A cell that is executed with last-executed text \<open>t0\<close> is marked unexecuted by a
  content change to any other text \<open>t1\<close>, its outputs staying as they are; a following
  content change back to exactly \<open>t0\<close> leaves it unexecuted.
\<close>

theorem staleness_after_edit:
  assumes "findCell cid (cells st) = Some c"
    and "isExecuted c = Some True" and "lastExecutedContent c = Some t0"
    and "cid \<in> elements st" and "editorOf st cid \<noteq> None"
    and "t1 \<noteq> t0"
  shows "executionState (onDidChangeModelContent cid t1 st) cid = Some (Some False, None) \<and>
         outputsOf (onDidChangeModelContent cid t1 st) cid = Some (outputs c) \<and>
         executionState (onDidChangeModelContent cid t0 (onDidChangeModelContent cid t1 st)) cid
           = Some (Some False, None)"
proof -
  let ?st1 = "onDidChangeModelContent cid t1 st"
  let ?c1 = "c\<lparr> isExecuted := Some False, lastExecutedContent := None \<rparr>"
  have c1: "findCell cid (cells ?st1) = Some ?c1"
    using content_change_cases(1) [OF assms(1,4,5), of t1] assms(3,6) by simp
  have first: "executionState ?st1 cid = Some (Some False, None)"
    using c1 by (simp add: executionState_def)
  have outs: "outputsOf ?st1 cid = Some (outputs c)"
    using c1 by (simp add: outputsOf_def)
  have el: "cid \<in> elements ?st1"
    using content_change_cases(2) [OF assms(1,4,5), of t1] assms(4) by simp
  have ed: "editorOf ?st1 cid \<noteq> None"
    by (rule content_change_cases(3) [OF assms(1,4,5)])
  have again: "executionState (onDidChangeModelContent cid t0 ?st1) cid = Some (Some False, None)"
    using content_change_cases(1) [OF c1 el ed, of t0] by (simp add: executionState_def)
  from first outs again show ?thesis by simp
qed

theorem staleness_after_edit_witness:
  "executionState executed_page ''cell0'' = Some (Some True, Some ''console.log(1+1)'') \<and>
   executionState (onDidChangeModelContent ''cell0'' ''console.log(3)'' executed_page) ''cell0''
     = Some (Some False, None) \<and>
   outputsOf (onDidChangeModelContent ''cell0'' ''console.log(3)'' executed_page) ''cell0''
     = Some [Log ''2''] \<and>
   executionState (onDidChangeModelContent ''cell0'' ''console.log(1+1)''
     (onDidChangeModelContent ''cell0'' ''console.log(3)'' executed_page)) ''cell0''
     = Some (Some False, None)"
proof -
  let ?c = "\<lparr> cellId = ''cell0'', type = Js, mode = None, outputs = [Log ''2''],
     isOutputVisible = Some True, isExecuted = Some True,
     lastExecutedContent = Some ''console.log(1+1)'' \<rparr>"
  have found: "findCell ''cell0'' (cells executed_page) = Some ?c" by code_simp
  have el: "''cell0'' \<in> elements executed_page" by code_simp
  have ed: "editorOf executed_page ''cell0'' \<noteq> None" by code_simp
  have ne: "''console.log(3)'' \<noteq> ''console.log(1+1)''" by simp
  have st: "executionState executed_page ''cell0'' = Some (Some True, Some ''console.log(1+1)'')"
    using found by (simp add: executionState_def)
  from staleness_after_edit [OF found _ _ el ed ne] st show ?thesis by simp
qed

subsection \<open>Running a code cell\<close>



lemma map_type_modify:
  assumes "\<And>c. type (f c) = type c"
  shows "map type (modify_cell i f cs) = map type cs"
  using assms by (induction cs) simp_all




lemma runCell_not_constructed:
  assumes "runnable_code_cell st cid code" and "eng code = None"
  shows "runCell eng cid st =
     (Threw SyntaxError, st\<lparr> cells := modify_cell cid (\<lambda>c. c\<lparr> outputs := [] \<rparr>) (cells st) \<rparr>)"
proof -
  from assms(1) obtain c ed where c: "findCell cid (cells st) = Some c" "type c = Js"
    and ed: "editorOf st cid = Some ed" "getValue ed = code" and el: "cid \<in> elements st"
    by (auto simp: runnable_code_cell_def)
  then show ?thesis using assms(2) by (simp add: runCell_def Let_def)
qed







lemma deleteOwnKeys_stuck: "\<not> clearable s \<Longrightarrow> fst (deleteOwnKeys s) = Threw TypeError"
  by (induction s) (auto simp: clearable_def split: prod.splits)

lemma deleteOwnKeys_keeps_hidden:
  "filter (\<lambda>kp. \<not> enumerable (snd kp)) (snd (deleteOwnKeys s))
     = filter (\<lambda>kp. \<not> enumerable (snd kp)) s"
  by (induction s) (auto split: prod.splits)


text \<open>A restart that meets an enumerable property that is not configurable throws, and
  then no output is cleared.\<close>

lemma restartKernel_throws:
  assumes "\<not> clearable (persistentScope st)"
  shows "fst (restartKernel True st) = Threw TypeError"
    and "cells (snd (restartKernel True st)) = cells st"
proof -
  obtain properties where d: "deleteOwnKeys (persistentScope st) = (Threw TypeError, properties)"
    using deleteOwnKeys_stuck [OF assms] by (cases "deleteOwnKeys (persistentScope st)") auto
  show "fst (restartKernel True st) = Threw TypeError"
    and "cells (snd (restartKernel True st)) = cells st"
    by (simp_all add: restartKernel_def d)
qed



text \<open>
  C2, at the failing input. The text \<open>(\<close> of the only cell of \<open>broken_page\<close> is no script:
  the constructor throws before the \<open>try\<close> block is entered, so the exception leaves
  \<open>runCell\<close>, the cell has no \<open>Error\<close> output, and it is not marked executed. \<open>runAllCells\<close>
  ends with the same exception.
\<close>

theorem runCell_syntax_error_propagates:
  "runnable_code_cell broken_page ''cell0'' ''('' \<and>
   sample_engine ''('' = None \<and>
   fst (runCell sample_engine ''cell0'' broken_page) = Threw SyntaxError \<and>
   outputsOf (snd (runCell sample_engine ''cell0'' broken_page)) ''cell0'' = Some [] \<and>
   executionState (snd (runCell sample_engine ''cell0'' broken_page)) ''cell0''
     = Some (None, None) \<and>
   fst (runAllCells sample_engine broken_page) = Threw SyntaxError"
  by code_simp




subsection \<open>Cell ids are distinct for distinct counters\<close>

lemma digit_char_value: "d < 10 \<Longrightarrow> of_char (digit_char d) - 48 = d"
  by (simp add: digit_char_def)

lemma digits_value_snoc: "digits_value (s @ [c]) = 10 * digits_value s + (of_char c - 48)"
  by (simp add: digits_value_def)

lemma digits_value_decimal: "digits_value (decimal n) = n"
proof (induction n rule: decimal.induct)
  case (1 n)
  show ?case
  proof (cases "n < 10")
    case True
    then show ?thesis
      using digits_value_snoc [of "[]" "digit_char n"]
      by (simp add: decimal.simps [of n] digit_char_value digits_value_def)
  next
    case False
    then show ?thesis
      using 1 by (simp add: decimal.simps [of n] digits_value_snoc digit_char_value)
  qed
qed

lemma cellIdOf_inject: "cellIdOf m = cellIdOf n \<Longrightarrow> m = n"
proof -
  assume "cellIdOf m = cellIdOf n"
  then have "decimal m = decimal n" by (simp add: cellIdOf_def)
  then have "digits_value (decimal m) = digits_value (decimal n)" by simp
  then show "m = n" by (simp add: digits_value_decimal)
qed

subsection \<open>The drag handler\<close>

lemma onEnd_same_index: "onEnd (Some i) (Some i) slots = slots"
  by (simp add: onEnd_def)

lemma onEnd_undefined_index: "onEnd None new slots = slots" "onEnd old None slots = slots"
  by (simp_all add: onEnd_def split: option.splits)

lemma drop_map_Some_nth:
  "old < length cs \<Longrightarrow>
     (case map Some (drop old cs) of [] \<Rightarrow> None | x # _ \<Rightarrow> x) = Some (cs ! old)"
  by (simp add: Cons_nth_drop_Suc [symmetric])

lemma onEnd_in_range:
  assumes "old < length cs" and "old \<noteq> new"
  shows "onEnd (Some old) (Some new) (map Some cs) =
           map Some (insert_at new (cs ! old) (remove_at old cs))"
  using assms
  by (simp add: onEnd_def drop_map_Some_nth insert_at_def remove_at_def take_map drop_map)

lemma onEnd_old_out_of_range:
  assumes "length cs \<le> old" and "old \<noteq> new"
  shows "onEnd (Some old) (Some new) (map Some cs) = insert_at new None (map Some cs)"
  using assms by (simp add: onEnd_def remove_at_def)

lemma those_map_Some: "those (map Some xs) = Some xs"
  by (induction xs) simp_all

lemma those_with_None: "None \<in> set xs \<Longrightarrow> those xs = None"
  by (induction xs) (auto split: option.splits)

lemma dragEnd_in_range:
  assumes "old < length (cells st)" and "old \<noteq> new"
  shows "dragEnd (Some old) (Some new) st =
           Some (st\<lparr> cells := insert_at new (cells st ! old) (remove_at old (cells st)) \<rparr>)"
  using assms by (simp add: dragEnd_def onEnd_in_range those_map_Some)

lemma dragEnd_old_out_of_range:
  assumes "length (cells st) \<le> old" and "old \<noteq> new"
  shows "dragEnd (Some old) (Some new) st = None"
proof -
  have "None \<in> set (insert_at new None (map Some (cells st)))"
    by (simp add: insert_at_def)
  then show ?thesis
    using assms by (simp add: dragEnd_def onEnd_old_out_of_range those_with_None)
qed

text \<open>With the old index in range, the cells other than the moved one keep their order:
  taking the moved cell out again gives the array without it.\<close>

lemma reinserted_others_keep_order:
  "remove_at (min new (length (remove_at old cs))) (insert_at new x (remove_at old cs))
     = remove_at old cs"
proof -
  have "remove_at (min n (length ys)) (insert_at n x ys) = ys" for n and ys :: "'a list"
  proof (cases "n \<le> length ys")
    case True
    then show ?thesis by (simp add: insert_at_def remove_at_def min_def)
  next
    case False
    then show ?thesis by (simp add: insert_at_def remove_at_def min_def)
  qed
  then show ?thesis .
qed

text \<open>
  C8, at the failing inputs. On the page with the cells \<open>cell0\<close> and \<open>cell1\<close>, the old index
  \<open>2\<close> is out of range: the handler removes nothing and inserts an \<open>undefined\<close> entry at the
  new index \<open>0\<close>. On the page with the cells \<open>cell0\<close> to \<open>cell3\<close>, the new index \<open>5\<close> is out
  of range: the handler moves \<open>cell2\<close> to the end. Neither call leaves the array as it was.
\<close>

theorem onEnd_out_of_range_changes_store:
  "map (map_option cellId) (map Some (cells two_cells_page)) = [Some ''cell0'', Some ''cell1''] \<and>
   map (map_option cellId) (onEnd (Some 2) (Some 0) (map Some (cells two_cells_page)))
     = [None, Some ''cell0'', Some ''cell1''] \<and>
   dragEnd (Some 2) (Some 0) two_cells_page = None \<and>
   map cellId (cells four_cells_page) = [''cell0'', ''cell1'', ''cell2'', ''cell3''] \<and>
   map (map_option cellId) (onEnd (Some 2) (Some 5) (map Some (cells four_cells_page)))
     = [Some ''cell0'', Some ''cell1'', Some ''cell3'', Some ''cell2'']"
proof -
  have ids: "map (map_option cellId) (map Some (cells two_cells_page))
      = [Some ''cell0'', Some ''cell1'']"
    by code_simp
  have hole: "map (map_option cellId) (onEnd (Some 2) (Some 0) (map Some (cells two_cells_page)))
      = [None, Some ''cell0'', Some ''cell1'']"
    by code_simp
  have out: "dragEnd (Some 2) (Some 0) two_cells_page = None"
    by code_simp
  have ids4: "map cellId (cells four_cells_page) = [''cell0'', ''cell1'', ''cell2'', ''cell3'']"
    by code_simp
  have moved: "map (map_option cellId) (onEnd (Some 2) (Some 5) (map Some (cells four_cells_page)))
      = [Some ''cell0'', Some ''cell1'', Some ''cell3'', Some ''cell2'']"
    by code_simp
  from ids hole out ids4 moved show ?thesis by (simp only: simp_thms)
qed

subsection \<open>The store under sequences of operations\<close>

lemma mset_insert_at: "mset (insert_at j x ys) = add_mset x (mset ys)"
proof -
  have "mset (take j ys) + mset (drop j ys) = mset ys"
    by (simp add: mset_append [symmetric] del: mset_append)
  then show ?thesis by (simp add: insert_at_def)
qed

lemma mset_remove_at: "i < length xs \<Longrightarrow> add_mset (xs ! i) (mset (remove_at i xs)) = mset xs"
proof -
  assume "i < length xs"
  then have "xs = take i xs @ xs ! i # drop (Suc i) xs" by (rule id_take_nth_drop)
  then have "mset xs = mset (take i xs @ xs ! i # drop (Suc i) xs)" by simp
  then show ?thesis by (simp add: remove_at_def)
qed

lemma mset_moved: "i < length xs \<Longrightarrow> mset (insert_at j (xs ! i) (remove_at i xs)) = mset xs"
  by (simp add: mset_insert_at mset_remove_at)

lemma length_insert_at: "length (insert_at j x ys) = Suc (length ys)"
  by (simp add: insert_at_def)

lemma length_remove_at: "i < length xs \<Longrightarrow> Suc (length (remove_at i xs)) = length xs"
  by (simp add: remove_at_def)

lemma set_remove_at: "set (remove_at i xs) \<subseteq> set xs"
  by (auto simp: remove_at_def dest: in_set_takeD in_set_dropD)

lemma distinct_remove_middle: "distinct ys \<Longrightarrow> distinct (take i ys @ drop (Suc i) ys)"
  using set_take_disj_set_drop_if_distinct [of ys i "Suc i"] by simp

lemma distinct_map_remove_at: "distinct (map f xs) \<Longrightarrow> distinct (map f (remove_at i xs))"
  using distinct_remove_middle [of "map f xs" i]
  by (simp only: remove_at_def map_append take_map drop_map)

lemma findIndex_Some: "findIndex p xs = Some i \<Longrightarrow> i < length xs \<and> p (xs ! i)"
  by (induction xs arbitrary: i) (auto split: if_splits)

lemma findIndex_None_iff: "findIndex (\<lambda>c. cellId c = cid) cs = None \<longleftrightarrow> findCell cid cs = None"
  by (induction cs) (simp_all add: findCell_def)

lemma valid_store_iff:
  "valid_store st \<longleftrightarrow>
     distinct (map cellId (cells st)) \<and>
     (\<forall>c \<in> set (cells st). \<exists>n < cellCounter st. cellId c = cellIdOf n)"
proof -
  have "(x \<in> set (map cellIdOf [0..<k])) = (\<exists>n < k. x = cellIdOf n)" for x k
    by auto
  then show ?thesis by (simp add: valid_store_def list_all_iff)
qed

lemma addCell_valid:
  assumes "valid_store st"
  shows "valid_store (addCell code ty pre outs index st)"
    and "length (cells (addCell code ty pre outs index st)) = Suc (length (cells st))"
    and "cellCounter (addCell code ty pre outs index st) = Suc (cellCounter st)"
proof -
  let ?new = "\<lparr> cellId = cellIdOf (cellCounter st), type = ty,
            mode = (if ty = Md then Some Edit else None),
            outputs = outs,
            isOutputVisible = Some (if ty = Js then outs \<noteq> [] else pre),
            isExecuted = None, lastExecutedContent = None \<rparr>"
  let ?cs = "case index of Some i \<Rightarrow> insert_at i ?new (cells st) | None \<Rightarrow> cells st @ [?new]"
  have cs: "cells (addCell code ty pre outs index st) = ?cs"
    and cnt: "cellCounter (addCell code ty pre outs index st) = Suc (cellCounter st)"
    by (simp_all add: addCell_def Let_def)
  have m: "mset ?cs = add_mset ?new (mset (cells st))"
    by (simp add: mset_insert_at split: option.splits)
  from assms have d: "distinct (map cellId (cells st))"
    and old: "\<forall>c \<in> set (cells st). \<exists>n < cellCounter st. cellId c = cellIdOf n"
    by (simp_all add: valid_store_iff)
  have fresh: "cellIdOf (cellCounter st) \<notin> cellId ` set (cells st)"
  proof
    assume "cellIdOf (cellCounter st) \<in> cellId ` set (cells st)"
    then obtain c where "c \<in> set (cells st)" "cellId c = cellIdOf (cellCounter st)" by auto
    with old obtain n where "n < cellCounter st" "cellIdOf n = cellIdOf (cellCounter st)"
      by metis
    then show False using cellIdOf_inject [of n "cellCounter st"] by simp
  qed
  have "mset (map cellId ?cs) = image_mset cellId (mset ?cs)"
    by (rule mset_map)
  also have "\<dots> = add_mset (cellIdOf (cellCounter st)) (mset (map cellId (cells st)))"
    by (simp only: m image_mset_add_mset mset_map Cell.select_convs)
  also have "\<dots> = mset (cellIdOf (cellCounter st) # map cellId (cells st))"
    by simp
  finally have "distinct (map cellId ?cs) \<longleftrightarrow>
      distinct (cellIdOf (cellCounter st) # map cellId (cells st))"
    by (rule mset_eq_imp_distinct_iff)
  with d fresh have d': "distinct (map cellId ?cs)" by simp
  have "set_mset (mset ?cs) = set_mset (add_mset ?new (mset (cells st)))"
    by (simp only: m)
  then have "set ?cs = insert ?new (set (cells st))"
    by (simp only: set_mset_mset set_mset_add_mset_insert)
  moreover have "\<exists>n < Suc (cellCounter st). cellId ?new = cellIdOf n"
    by auto
  moreover have "\<exists>n < Suc (cellCounter st). cellId c = cellIdOf n" if "c \<in> set (cells st)" for c
    using old that less_SucI by blast
  ultimately have "\<forall>c \<in> set ?cs. \<exists>n < Suc (cellCounter st). cellId c = cellIdOf n"
    by (simp only: ball_simps insert_iff) blast
  with d' show "valid_store (addCell code ty pre outs index st)"
    by (simp add: valid_store_iff cs cnt)
  show "length (cells (addCell code ty pre outs index st)) = Suc (length (cells st))"
    by (simp add: cs length_insert_at split: option.splits)
  show "cellCounter (addCell code ty pre outs index st) = Suc (cellCounter st)"
    by (rule cnt)
qed

lemma deleteCell_valid:
  assumes "valid_store st"
  shows "valid_store (deleteCell cid st)"
    and "length (cells (deleteCell cid st)) + (if findCell cid (cells st) \<noteq> None then 1 else 0)
           = length (cells st)"
proof -
  show "valid_store (deleteCell cid st)"
    using assms set_remove_at [of _ "cells st"]
    by (auto simp: valid_store_iff deleteCell_def distinct_map_remove_at split: option.splits)
  show "length (cells (deleteCell cid st)) + (if findCell cid (cells st) \<noteq> None then 1 else 0)
           = length (cells st)"
  proof (cases "findIndex (\<lambda>c. cellId c = cid) (cells st)")
    case None
    then show ?thesis
      using findIndex_None_iff [of cid "cells st"] by (simp add: deleteCell_def)
  next
    case (Some idx)
    then have "idx < length (cells st)" by (simp add: findIndex_Some)
    then have "Suc (length (remove_at idx (cells st))) = length (cells st)"
      by (rule length_remove_at)
    moreover have "findCell cid (cells st) \<noteq> None"
      using Some findIndex_None_iff [of cid "cells st"] by simp
    ultimately show ?thesis using Some by (simp add: deleteCell_def)
  qed
qed

lemma moved_valid:
  assumes "valid_store st" and "i < length (cells st)"
  shows "valid_store (st\<lparr> cells := insert_at j (cells st ! i) (remove_at i (cells st)) \<rparr>)"
    and "length (insert_at j (cells st ! i) (remove_at i (cells st))) = length (cells st)"
proof -
  let ?cs = "insert_at j (cells st ! i) (remove_at i (cells st))"
  have m: "mset ?cs = mset (cells st)" using assms(2) by (rule mset_moved)
  then have "mset (map cellId ?cs) = mset (map cellId (cells st))" by simp
  then have "distinct (map cellId ?cs) \<longleftrightarrow> distinct (map cellId (cells st))"
    by (rule mset_eq_imp_distinct_iff)
  moreover have "set ?cs = set (cells st)" using m by (rule mset_eq_setD)
  ultimately show "valid_store (st\<lparr> cells := ?cs \<rparr>)"
    using assms(1) by (simp add: valid_store_iff)
  show "length ?cs = length (cells st)" using m by (rule mset_eq_length)
qed

lemma moveCell_valid:
  assumes "valid_store st"
  shows "valid_store (moveCell cid dir st)"
    and "length (cells (moveCell cid dir st)) = length (cells st)"
proof -
  have "valid_store (moveCell cid dir st) \<and> length (cells (moveCell cid dir st)) = length (cells st)"
  proof (cases "findIndex (\<lambda>c. cellId c = cid) (cells st)")
    case None
    then show ?thesis using assms by (simp add: moveCell_def)
  next
    case (Some i)
    then have "i < length (cells st)" by (simp add: findIndex_Some)
    then show ?thesis
      using Some assms moved_valid [OF assms]
      by (simp add: moveCell_def Let_def)
  qed
  then show "valid_store (moveCell cid dir st)"
    and "length (cells (moveCell cid dir st)) = length (cells st)" by simp_all
qed

lemma dragEnd_valid:
  assumes "valid_store st" and "dragEnd (Some old) (Some new) st = Some st'"
  shows "valid_store st' \<and> length (cells st') = length (cells st)"
proof (cases "old = new")
  case True
  then show ?thesis
    using assms by (auto simp: dragEnd_def onEnd_same_index those_map_Some)
next
  case False
  then have "old < length (cells st)"
    using assms(2) dragEnd_old_out_of_range [of st old new] by (cases "old < length (cells st)") simp_all
  then show ?thesis
    using False assms moved_valid [OF assms(1), of old new]
    by (auto simp: dragEnd_in_range)
qed

lemma apply_op_valid:
  assumes "valid_store st" and "apply_op op st = Some st'"
  shows "valid_store st' \<and>
         length (cells st') + deleted_by op st = length (cells st) + created_by op"
proof (cases op)
  case (Insert code ty pre outs index)
  then show ?thesis using assms addCell_valid(1,2) [OF assms(1)] by auto
next
  case (Delete cid)
  then show ?thesis using assms deleteCell_valid [OF assms(1), of cid] by auto
next
  case (Move cid dir)
  then show ?thesis using assms moveCell_valid [OF assms(1), of cid dir] by auto
next
  case (Reorder old new)
  then show ?thesis using assms dragEnd_valid [OF assms(1), of old new st'] by auto
qed

text \<open>
  The invariant that holds as long as no drag event carries an old index past the end
  of the array: ids stay distinct, and the length changes by the cells created minus
  the cells deleted.
\<close>

lemma run_ops_invariant:
  assumes "valid_store st" and "run_ops ops st = Some (st', created, deleted)"
  shows "valid_store st' \<and> distinct (map cellId (cells st')) \<and>
         length (cells st') + deleted = length (cells st) + created"
  using assms
proof (induction ops arbitrary: st created deleted)
  case Nil
  then show ?case by (simp add: valid_store_iff)
next
  case (Cons op ops)
  from Cons.prems(2) obtain st1 cr de where
    step: "apply_op op st = Some st1" and
    rest: "run_ops ops st1 = Some (st', cr, de)" and
    sums: "created = created_by op + cr" "deleted = deleted_by op st + de"
    by (auto split: option.splits)
  from apply_op_valid [OF Cons.prems(1) step]
  have v1: "valid_store st1"
    and l1: "length (cells st1) + deleted_by op st = length (cells st) + created_by op"
    by simp_all
  from Cons.IH [OF v1 rest] l1 sums show ?case by simp
qed

lemma apply_op_corrupts_iff:
  "apply_op op st = None \<longleftrightarrow>
     (\<exists>old new. op = Reorder old new \<and> old \<noteq> new \<and> length (cells st) \<le> old)"
proof (cases op)
  case (Reorder old new)
  show ?thesis
  proof (cases "old = new")
    case True
    then show ?thesis
      using Reorder by (simp add: dragEnd_def onEnd_same_index those_map_Some)
  next
    case False
    then show ?thesis
      using Reorder dragEnd_in_range [of old st new] dragEnd_old_out_of_range [of st old new]
      by (cases "old < length (cells st)") simp_all
  qed
qed simp_all

text \<open>
  C5, at the failing input. The page holds the one cell ever created and nothing was
  deleted; it is a valid store. A drag event with old index \<open>2\<close> and new index \<open>0\<close> leaves
  an array of two entries, the first \<open>undefined\<close>.
\<close>

theorem reorder_breaks_length_invariant:
  "valid_store one_cell_page \<and>
   cellCounter one_cell_page = 1 \<and>
   length (cells one_cell_page) = 1 \<and>
   map (map_option cellId) (onEnd (Some 2) (Some 0) (map Some (cells one_cell_page)))
     = [None, Some ''cell0''] \<and>
   length (onEnd (Some 2) (Some 0) (map Some (cells one_cell_page))) = 2 \<and>
   run_ops [Reorder 2 0] one_cell_page = None"
proof -
  have v: "valid_store one_cell_page" by code_simp
  have n: "cellCounter one_cell_page = 1" by code_simp
  have l: "length (cells one_cell_page) = 1" by code_simp
  have e: "map (map_option cellId) (onEnd (Some 2) (Some 0) (map Some (cells one_cell_page)))
     = [None, Some ''cell0'']" by code_simp
  have l2: "length (onEnd (Some 2) (Some 0) (map Some (cells one_cell_page))) = 2" by code_simp
  have r: "run_ops [Reorder 2 0] one_cell_page = None" by code_simp
  from v n l e l2 r show ?thesis by (simp only: simp_thms)
qed

text \<open>
  On a valid store the store operations keep every cell together with its elements and
  its editor, which is what running a cell and marking it stale ask for.
\<close>

lemma map_of_delete_prop: "k \<noteq> cid \<Longrightarrow> map_of (delete_prop cid kvs) k = map_of kvs k"
  by (induction kvs) (auto simp: delete_prop_def)

lemma set_insert_at: "set (insert_at j x ys) = insert x (set ys)"
proof -
  have "set_mset (mset (insert_at j x ys)) = set_mset (add_mset x (mset ys))"
    by (simp only: mset_insert_at)
  then show ?thesis by simp
qed

lemma page_consistent_iff:
  "page_consistent st \<longleftrightarrow>
     (\<forall>c \<in> set (cells st). cellId c \<in> elements st \<and> editorOf st (cellId c) \<noteq> None)"
  by (simp add: page_consistent_def list_all_iff)

lemma addCell_consistent:
  assumes "page_consistent st"
  shows "page_consistent (addCell code ty pre outs index st)"
proof -
  let ?st' = "addCell code ty pre outs index st"
  let ?new = "\<lparr> cellId = cellIdOf (cellCounter st), type = ty,
            mode = (if ty = Md then Some Edit else None),
            outputs = outs,
            isOutputVisible = Some (if ty = Js then outs \<noteq> [] else pre),
            isExecuted = None, lastExecutedContent = None \<rparr>"
  have cs: "set (cells ?st') = insert ?new (set (cells st))"
    by (simp add: addCell_def Let_def set_insert_at split: option.splits)
  have el: "elements ?st' = insert (cellIdOf (cellCounter st)) (elements st)"
    by (simp add: addCell_def Let_def)
  have ed: "editorOf ?st' k \<noteq> None" if "k = cellIdOf (cellCounter st) \<or> editorOf st k \<noteq> None" for k
    using that by (auto simp: addCell_def Let_def editorOf_def map_of_set_prop)
  show ?thesis
    unfolding page_consistent_iff
  proof
    fix c
    assume "c \<in> set (cells ?st')"
    then consider "c = ?new" | "c \<in> set (cells st)" using cs by auto
    then show "cellId c \<in> elements ?st' \<and> editorOf ?st' (cellId c) \<noteq> None"
    proof cases
      case 1
      then have "cellId c = cellIdOf (cellCounter st)" by simp
      then show ?thesis using el ed [of "cellId c"] by simp
    next
      case 2
      with assms have "cellId c \<in> elements st" "editorOf st (cellId c) \<noteq> None"
        by (simp_all add: page_consistent_iff)
      then show ?thesis using el ed [of "cellId c"] by simp
    qed
  qed
qed

lemma deleteCell_consistent:
  assumes "valid_store st" and "page_consistent st"
  shows "page_consistent (deleteCell cid st)"
proof -
  have other: "cellId c \<noteq> cid" if "c \<in> set (cells (deleteCell cid st))" for c
  proof (cases "findIndex (\<lambda>c. cellId c = cid) (cells st)")
    case None
    then have "findCell cid (cells st) = None" by (simp add: findIndex_None_iff)
    then have "\<forall>c \<in> set (cells st). cellId c \<noteq> cid"
      by (simp add: findCell_def find_None_iff)
    with that None show ?thesis by (simp add: deleteCell_def)
  next
    case (Some idx)
    then have idx: "idx < length (cells st)" "cellId (cells st ! idx) = cid"
      using findIndex_Some [of "\<lambda>c. cellId c = cid" "cells st" idx] by simp_all
    from assms(1) have d: "distinct (map cellId (cells st))" by (simp add: valid_store_iff)
    have "image_mset cellId (add_mset (cells st ! idx) (mset (remove_at idx (cells st))))
        = image_mset cellId (mset (cells st))"
      using mset_remove_at [OF idx(1)] by simp
    then have "mset (cid # map cellId (remove_at idx (cells st))) = mset (map cellId (cells st))"
      using idx(2) by simp
    then have "distinct (cid # map cellId (remove_at idx (cells st)))"
      using d mset_eq_imp_distinct_iff by blast
    then have "cid \<notin> cellId ` set (remove_at idx (cells st))" by simp
    with that Some show ?thesis by (auto simp: deleteCell_def)
  qed
  have sub: "set (cells (deleteCell cid st)) \<subseteq> set (cells st)"
    using set_remove_at [of _ "cells st"] by (auto simp: deleteCell_def split: option.splits)
  have keep: "k \<in> elements (deleteCell cid st) \<and> editorOf (deleteCell cid st) k \<noteq> None"
    if "k \<noteq> cid" "k \<in> elements st" "editorOf st k \<noteq> None" for k
    using that by (simp add: deleteCell_def editorOf_def map_of_delete_prop)
  show ?thesis
    using assms(2) other sub keep unfolding page_consistent_iff by blast
qed

lemma moved_consistent:
  assumes "page_consistent st" and "i < length (cells st)"
  shows "page_consistent (st\<lparr> cells := insert_at j (cells st ! i) (remove_at i (cells st)) \<rparr>)"
proof -
  have "set (insert_at j (cells st ! i) (remove_at i (cells st))) = set (cells st)"
    using mset_moved [OF assms(2), of j] by (rule mset_eq_setD)
  then show ?thesis
    using assms(1) by (simp add: page_consistent_iff editorOf_def)
qed

lemma apply_op_consistent:
  assumes "valid_store st" and "page_consistent st" and "apply_op op st = Some st'"
  shows "page_consistent st'"
proof (cases op)
  case (Insert code ty pre outs index)
  then show ?thesis using assms addCell_consistent by auto
next
  case (Delete cid)
  then show ?thesis using assms deleteCell_consistent by auto
next
  case (Move cid dir)
  show ?thesis
  proof (cases "findIndex (\<lambda>c. cellId c = cid) (cells st)")
    case None
    then show ?thesis using Move assms by (simp add: moveCell_def)
  next
    case (Some i)
    then have "i < length (cells st)" by (simp add: findIndex_Some)
    then show ?thesis
      using Some Move assms moved_consistent [OF assms(2)]
      by (auto simp: moveCell_def Let_def)
  qed
next
  case (Reorder old new)
  show ?thesis
  proof (cases "old = new")
    case True
    then show ?thesis
      using Reorder assms by (auto simp: dragEnd_def onEnd_same_index those_map_Some
          page_consistent_iff editorOf_def)
  next
    case False
    then have "old < length (cells st)"
      using Reorder assms(3) dragEnd_old_out_of_range [of st old new]
      by (cases "old < length (cells st)") simp_all
    then show ?thesis
      using False Reorder assms moved_consistent [OF assms(2), of old new]
      by (auto simp: dragEnd_in_range)
  qed
qed

lemma run_ops_consistent:
  assumes "valid_store st" and "page_consistent st"
    and "run_ops ops st = Some (st', created, deleted)"
  shows "page_consistent st'"
  using assms
proof (induction ops arbitrary: st created deleted)
  case Nil
  then show ?case by simp
next
  case (Cons op ops)
  from Cons.prems(3) obtain st1 cr de where
    step: "apply_op op st = Some st1" and rest: "run_ops ops st1 = Some (st', cr, de)"
    by (auto split: option.splits)
  from apply_op_valid [OF Cons.prems(1) step] have v1: "valid_store st1" by simp
  from apply_op_consistent [OF Cons.prems(1,2) step] have c1: "page_consistent st1" .
  from Cons.IH [OF v1 c1 rest] show ?case .
qed

subsection \<open>Restart\<close>




text \<open>On a scope that a cell has frozen, restart throws and clears nothing: the second
  cell of \<open>freezer_page\<close> keeps its output and still reads the value.\<close>

lemma restartKernel_on_frozen_scope:
  "fst (restartKernel True (snd (runCell sample_engine ''cell1''
       (snd (runCell sample_engine ''cell0'' freezer_page))))) = Threw TypeError \<and>
   outputsOf (snd (restartKernel True (snd (runCell sample_engine ''cell1''
       (snd (runCell sample_engine ''cell0'' freezer_page)))))) ''cell1'' = Some [Log ''1''] \<and>
   scope_get (persistentScope (snd (restartKernel True (snd (runCell sample_engine ''cell1''
       (snd (runCell sample_engine ''cell0'' freezer_page))))))) ''x'' = Some (JsNumber 1)"
  by code_simp

subsection \<open>The focused cell and the clipboard\<close>

lemma getFocusedCell_frame:
  "cells (snd (getFocusedCell st)) = cells st"
  "cellClipboard (snd (getFocusedCell st)) = cellClipboard st"
  "monacoInstances (snd (getFocusedCell st)) = monacoInstances st"
  "elements (snd (getFocusedCell st)) = elements st"
  "cellCounter (snd (getFocusedCell st)) = cellCounter st"
  "persistentScope (snd (getFocusedCell st)) = persistentScope st"
  by (simp_all add: getFocusedCell_def split: option.splits list.splits prod.splits)

lemma getFocusedCell_empty_store: "cells st = [] \<Longrightarrow> fst (getFocusedCell st) = None"
  by (simp add: getFocusedCell_def findCell_def split: option.splits prod.splits)

text \<open>
  C9, the counterexample. On the page with the cells \<open>cell0\<close> and \<open>cell1\<close>, the editor of
  \<open>cell0\<close> gains the focus and the cell is cut. The store still holds \<open>cell1\<close>, the recorded
  focus is still \<open>cell0\<close>, and \<open>getFocusedCell\<close> returns no cell.
\<close>

theorem getFocusedCell_stale_focus_counterexample:
  "map cellId (cells stale_focus_page) = [''cell1''] \<and>
   focusedCellId stale_focus_page = Some ''cell0'' \<and>
   fst (getFocusedCell stale_focus_page) = None"
  by code_simp

text \<open>
  C9, as amended. When a focused id is recorded (by the latest focus notification, or by
  an earlier call that fell back to the first cell), \<open>getFocusedCell\<close> returns the cell of
  the store with that id, and no cell when the store has none with that id. When no id is
  recorded, it returns the cell whose id is that of the first editor holding the text
  focus; without such an editor it returns the first cell of a non-empty store. For an
  empty store it returns no cell.
\<close>

theorem getFocusedCell_result:
  "(focusedCellId st = Some fid \<and> fid \<noteq> [] \<longrightarrow>
      fst (getFocusedCell st) = findCell fid (cells st)) \<and>
   (cid \<noteq> [] \<longrightarrow>
      fst (getFocusedCell (onDidFocusEditorText cid st)) = findCell cid (cells st)) \<and>
   (focusedCellId st = None \<and>
    find (\<lambda>kv. hasTextFocus (snd kv)) (monacoInstances st) = Some (eid, ed) \<longrightarrow>
      fst (getFocusedCell st) = findCell eid (cells st)) \<and>
   (focusedCellId st = None \<and>
    find (\<lambda>kv. hasTextFocus (snd kv)) (monacoInstances st) = None \<longrightarrow>
      fst (getFocusedCell st) = (case cells st of [] \<Rightarrow> None | c # _ \<Rightarrow> Some c)) \<and>
   (cells st = [] \<longrightarrow> fst (getFocusedCell st) = None)"
proof -
  have recorded: "fst (getFocusedCell s) = findCell fid (cells s)"
    if "focusedCellId s = Some fid" "fid \<noteq> []" for s fid
    using that by (simp add: getFocusedCell_def)
  have event: "fst (getFocusedCell (onDidFocusEditorText cid st)) = findCell cid (cells st)"
    if "cid \<noteq> []"
    using recorded [of "onDidFocusEditorText cid st" cid] that
    by (simp add: onDidFocusEditorText_def)
  have editor: "fst (getFocusedCell st) = findCell eid (cells st)"
    if "focusedCellId st = None"
      "find (\<lambda>kv. hasTextFocus (snd kv)) (monacoInstances st) = Some (eid, ed)"
    using that by (simp add: getFocusedCell_def)
  have first: "fst (getFocusedCell st) = (case cells st of [] \<Rightarrow> None | c # _ \<Rightarrow> Some c)"
    if "focusedCellId st = None"
      "find (\<lambda>kv. hasTextFocus (snd kv)) (monacoInstances st) = None"
    using that by (simp add: getFocusedCell_def split: list.splits)
  from recorded [of st fid] event editor first getFocusedCell_empty_store [of st]
  show ?thesis by blast
qed

theorem getFocusedCell_result_witness:
  "map cellId (cells two_cells_page) = [''cell0'', ''cell1''] \<and>
   map_option cellId (fst (getFocusedCell (onDidFocusEditorText ''cell1'' two_cells_page)))
     = Some ''cell1'' \<and>
   map_option cellId (fst (getFocusedCell two_cells_page)) = Some ''cell0'' \<and>
   fst (getFocusedCell initial_state) = None \<and>
   fst (getFocusedCell stale_focus_page) = findCell ''cell0'' (cells stale_focus_page)"
proof -
  have ids: "map cellId (cells two_cells_page) = [''cell0'', ''cell1'']" by code_simp
  have c1: "map_option cellId (findCell ''cell1'' (cells two_cells_page)) = Some ''cell1''"
    by code_simp
  have nofocus: "focusedCellId two_cells_page = None \<and>
      find (\<lambda>kv. hasTextFocus (snd kv)) (monacoInstances two_cells_page) = None"
    by code_simp
  have hd: "map_option cellId (case cells two_cells_page of [] \<Rightarrow> None | c # _ \<Rightarrow> Some c)
      = Some ''cell0''"
    by code_simp
  have stale: "focusedCellId stale_focus_page = Some ''cell0''" by code_simp
  have empty: "cells initial_state = []" by (simp add: initial_state_def)
  have ne: "''cell1'' \<noteq> []" "''cell0'' \<noteq> []" by simp_all
  from getFocusedCell_result [of two_cells_page "''cell1''" "''cell1''"]
    getFocusedCell_result [of initial_state "''cell1''" "''cell1''"]
    getFocusedCell_result [of stale_focus_page "''cell0''" "''cell0''"]
    ids c1 nofocus hd stale empty ne
  show ?thesis by simp
qed

text \<open>
  C10. When \<open>getFocusedCell\<close> finds no cell, as it does on an empty store, \<open>cutCell\<close> and
  \<open>copyCell\<close> return with the array of cells, the clipboard, the editors and the elements
  as they were; when the clipboard is empty, \<open>pasteCell\<close> returns with the whole page
  state as it was.
\<close>

theorem clipboard_operations_degrade_to_noops:
  "(fst (getFocusedCell st) = None \<longrightarrow>
      cells (cutCell st) = cells st \<and> cellClipboard (cutCell st) = cellClipboard st \<and>
      monacoInstances (cutCell st) = monacoInstances st \<and> elements (cutCell st) = elements st \<and>
      cells (copyCell st) = cells st \<and> cellClipboard (copyCell st) = cellClipboard st) \<and>
   (cells st = [] \<longrightarrow> fst (getFocusedCell st) = None) \<and>
   (cellClipboard st = None \<longrightarrow> pasteCell st = st)"
proof -
  have cut: "cutCell st = snd (getFocusedCell st)" and copy: "copyCell st = snd (getFocusedCell st)"
    if "fst (getFocusedCell st) = None"
    using that by (cases "getFocusedCell st"; simp add: cutCell_def copyCell_def)+
  have paste: "pasteCell st = st" if "cellClipboard st = None"
    using that by (simp add: pasteCell_def)
  from cut copy paste getFocusedCell_empty_store [of st] show ?thesis
    by (simp add: getFocusedCell_frame)
qed

theorem clipboard_operations_degrade_to_noops_witness:
  "fst (getFocusedCell stale_focus_page) = None \<and>
   map cellId (cells (cutCell stale_focus_page)) = [''cell1''] \<and>
   cellClipboard (cutCell stale_focus_page) = cellClipboard stale_focus_page \<and>
   map cellId (cells (copyCell stale_focus_page)) = [''cell1''] \<and>
   cellClipboard (copyCell stale_focus_page) = cellClipboard stale_focus_page \<and>
   cells (cutCell initial_state) = [] \<and> cellClipboard (cutCell initial_state) = None \<and>
   cells (copyCell initial_state) = [] \<and> cellClipboard (copyCell initial_state) = None \<and>
   pasteCell initial_state = initial_state \<and>
   pasteCell two_cells_page = two_cells_page"
proof -
  have none: "fst (getFocusedCell stale_focus_page) = None" by code_simp
  have ids: "map cellId (cells stale_focus_page) = [''cell1'']" by code_simp
  have empty: "cells initial_state = []" "cellClipboard initial_state = None"
    by (simp_all add: initial_state_def)
  have clip: "cellClipboard two_cells_page = None" by code_simp
  from clipboard_operations_degrade_to_noops [of stale_focus_page]
    clipboard_operations_degrade_to_noops [of initial_state]
    clipboard_operations_degrade_to_noops [of two_cells_page]
    none ids empty clip
  show ?thesis by simp
qed

subsection \<open>Flushing the parser's accumulations\<close>

lemma filled_push_first_js:
  assumes "list_all filled cs" and "t \<noteq> []"
  shows "list_all filled (push_first_js (Log t) cs)"
  using assms
  by (induction cs) (auto simp: filled_def split: option.splits)

lemma filled_addJsCell: "list_all filled (cellsData ps) \<Longrightarrow> list_all filled (cellsData (addJsCell ps))"
  by (simp add: addJsCell_def filled_def)

lemma filled_addMdCell: "list_all filled (cellsData ps) \<Longrightarrow> list_all filled (cellsData (addMdCell ps))"
  by (simp add: addMdCell_def filled_def)

lemma filled_addOutput: "list_all filled (cellsData ps) \<Longrightarrow> list_all filled (cellsData (addOutput ps))"
proof -
  assume a: "list_all filled (cellsData ps)"
  show ?thesis
  proof (cases "trim (outputContent ps) \<noteq> [] \<and> length (cellsData ps) > 0")
    case True
    from a have "list_all filled (rev (cellsData ps))" by (simp add: list_all_iff)
    with True have "list_all filled (push_first_js (Log (trim (outputContent ps))) (rev (cellsData ps)))"
      by (simp add: filled_push_first_js)
    then have "list_all filled (rev (push_first_js (Log (trim (outputContent ps))) (rev (cellsData ps))))"
      by (simp add: list_all_iff)
    with True show ?thesis by (simp add: addOutput_def)
  next
    case False
    with a show ?thesis by (auto simp: addOutput_def)
  qed
qed

lemma filled_parse_line:
  assumes "list_all filled (cellsData ps)"
  shows "list_all filled (cellsData (parse_line ps line))"
proof -
  note f = assms filled_addJsCell filled_addMdCell filled_addOutput
  have other [simp]:
    "cellsData (q\<lparr> mdContent := m \<rparr>) = cellsData q"
    "cellsData (q\<lparr> outputContent := m \<rparr>) = cellsData q"
    "cellsData (q\<lparr> jsCodeLines := js \<rparr>) = cellsData q" for q :: parser and m js
    by simp_all
  show ?thesis
    unfolding parse_line_def Let_def
    by (simp add: f)
qed

lemma filled_parse_lines:
  "list_all filled (cellsData ps) \<Longrightarrow> list_all filled (cellsData (parse_lines ps ls))"
  unfolding parse_lines_def
  by (induction ls arbitrary: ps) (simp_all add: filled_parse_line)

lemma filled_parseNotebookFile: "list_all filled (parseNotebookFile content)"
  unfolding parseNotebookFile_def
  by (intro filled_addOutput filled_addMdCell filled_addJsCell filled_parse_lines)
    (simp add: parser_init_def)

text \<open>
  C7, the counterexample. A code block whose only line is one space parses to a code
  cell with the empty text.
\<close>

theorem blank_code_block_counterexample:
  "parseNotebookFile blank_code_document
     = [\<lparr> type_d = Js, code_d = [], mode_d = None, outputs_d = Some [] \<rparr>]"
  by code_simp

text \<open>
  C7, as amended. A pending text or output accumulation that is empty or all white space
  when it is flushed gives no cell and no output, and stays as it is; a pending code
  accumulation gives no cell when it holds no line, and otherwise one code cell whose text
  is the trimmed lines, empty when the lines are all white space. In the result of parsing
  any document every text cell has a non-empty text and every output is a log with a
  non-empty text.
\<close>

theorem blank_accumulations_at_flush:
  "(trim (mdContent ps) = [] \<longrightarrow> addMdCell ps = ps) \<and>
   (trim (outputContent ps) = [] \<longrightarrow> addOutput ps = ps) \<and>
   (jsCodeLines ps = [] \<longrightarrow> addJsCell ps = ps) \<and>
   (jsCodeLines ps \<noteq> [] \<longrightarrow>
      cellsData (addJsCell ps) = cellsData ps @
        [\<lparr> type_d = Js, code_d = trim (join_lines (jsCodeLines ps)),
           mode_d = None, outputs_d = Some [] \<rparr>]) \<and>
   list_all filled (parseNotebookFile content)"
  by (simp add: addMdCell_def addOutput_def addJsCell_def filled_parseNotebookFile)

theorem blank_accumulations_at_flush_witness:
  "parseNotebookFile empty_code_document = [] \<and>
   addMdCell (parser_init\<lparr> mdContent := '' '' \<rparr>) = parser_init\<lparr> mdContent := '' '' \<rparr> \<and>
   addOutput (parser_init\<lparr> outputContent := '' '' \<rparr>) = parser_init\<lparr> outputContent := '' '' \<rparr> \<and>
   addJsCell parser_init = parser_init \<and>
   cellsData (addJsCell (parser_init\<lparr> jsCodeLines := ['' ''] \<rparr>))
     = [\<lparr> type_d = Js, code_d = [], mode_d = None, outputs_d = Some [] \<rparr>] \<and>
   list_all filled (parseNotebookFile blank_code_document)"
proof -
  have e: "parseNotebookFile empty_code_document = []" by code_simp
  have t: "trim '' '' = []" by code_simp
  have j: "trim (join_lines ['' '']) = []" by code_simp
  have i: "cellsData parser_init = []" "jsCodeLines parser_init = []"
    by (simp_all add: parser_init_def)
  from blank_accumulations_at_flush [of "parser_init\<lparr> mdContent := '' '' \<rparr>" blank_code_document]
    blank_accumulations_at_flush [of "parser_init\<lparr> outputContent := '' '' \<rparr>" blank_code_document]
    blank_accumulations_at_flush [of parser_init blank_code_document]
    blank_accumulations_at_flush [of "parser_init\<lparr> jsCodeLines := ['' ''] \<rparr>" blank_code_document]
    e t j i
  show ?thesis by simp
qed

subsection \<open>Lines and white space\<close>

lemma split_lines_not_Nil: "split_lines s \<noteq> []"
  by (induction s) (simp_all split: list.splits)

lemma split_lines_append_nl: "split_lines (a @ nl # b) = split_lines a @ split_lines b"
proof (induction a)
  case Nil
  show ?case by simp
next
  case (Cons c a)
  obtain l ls where l: "split_lines a = l # ls"
    using split_lines_not_Nil [of a] by (cases "split_lines a") auto
  show ?case using Cons l by simp
qed

lemma split_lines_no_nl: "nl \<notin> set l \<Longrightarrow> split_lines l = [l]"
  by (induction l) auto

lemma lines_have_no_nl: "l \<in> set (split_lines s) \<Longrightarrow> nl \<notin> set l"
proof (induction s arbitrary: l)
  case Nil
  then show ?case by simp
next
  case (Cons c s)
  obtain m ms where m: "split_lines s = m # ms"
    using split_lines_not_Nil [of s] by (cases "split_lines s") auto
  show ?case
  proof (cases "c = nl")
    case True
    with Cons show ?thesis by auto
  next
    case False
    with Cons.prems m have "l = c # m \<or> l \<in> set ms" by simp
    then show ?thesis
    proof
      assume "l = c # m"
      moreover have "nl \<notin> set m" using Cons.IH [of m] m by simp
      ultimately show ?thesis using False by auto
    next
      assume "l \<in> set ms"
      then show ?thesis using Cons.IH [of l] m by simp
    qed
  qed
qed

lemma join_lines_Cons_char: "join_lines ((c # l) # ls) = c # join_lines (l # ls)"
  by (cases ls) simp_all

lemma join_lines_Cons: "ls \<noteq> [] \<Longrightarrow> join_lines (l # ls) = l @ nl # join_lines ls"
  by (cases ls) simp_all

lemma join_split_lines: "join_lines (split_lines s) = s"
proof (induction s)
  case Nil
  show ?case by simp
next
  case (Cons c s)
  obtain m ms where m: "split_lines s = m # ms"
    using split_lines_not_Nil [of s] by (cases "split_lines s") auto
  show ?case
  proof (cases "c = nl")
    case True
    then show ?thesis using Cons m by simp
  next
    case False
    then show ?thesis using Cons m by (simp add: join_lines_Cons_char)
  qed
qed

lemma join_lines_append:
  "ls \<noteq> [] \<Longrightarrow> ms \<noteq> [] \<Longrightarrow> join_lines (ls @ ms) = join_lines ls @ nl # join_lines ms"
proof (induction ls)
  case Nil
  then show ?case by simp
next
  case (Cons l ls)
  show ?case
  proof (cases "ls = []")
    case True
    then show ?thesis using Cons.prems by (simp add: join_lines_Cons)
  next
    case False
    then show ?thesis using Cons by (simp add: join_lines_Cons)
  qed
qed

lemma split_join_lines:
  "ls \<noteq> [] \<Longrightarrow> \<forall>l \<in> set ls. nl \<notin> set l \<Longrightarrow> split_lines (join_lines ls) = ls"
proof (induction ls)
  case Nil
  then show ?case by simp
next
  case (Cons l ls)
  show ?case
  proof (cases "ls = []")
    case True
    then show ?thesis using Cons.prems by (simp add: split_lines_no_nl)
  next
    case False
    then show ?thesis
      using Cons by (simp add: join_lines_Cons split_lines_append_nl split_lines_no_nl)
  qed
qed

lemma join_lines_flat: "join_lines (l # ls) = l @ concat (map ((#) nl) ls)"
  by (induction ls arbitrary: l) (simp_all add: join_lines_Cons)

lemma isSpace_nl: "isSpace nl"
  by (simp add: isSpace_def nl_def)

lemma trim_Nil: "trim [] = []"
  by (simp add: trim_def trimStart_def trimEnd_def)

lemma trimEnd_fixed:
  assumes "s \<noteq> []" and "\<not> isSpace (last s)"
  shows "trimEnd s = s"
proof -
  from assms(1) obtain xs x where "s = xs @ [x]"
    by (cases s rule: rev_cases) auto
  then show ?thesis using assms(2) by (simp add: trimEnd_def)
qed

lemma trimStart_fixed:
  assumes "s \<noteq> []" and "\<not> isSpace (hd s)"
  shows "trimStart s = s"
  using assms by (cases s) (simp_all add: trimStart_def)

lemma trim_fixed_if:
  assumes "s \<noteq> []" and "\<not> isSpace (hd s)" and "\<not> isSpace (last s)"
  shows "trim s = s"
  using assms by (simp add: trim_def trimStart_fixed trimEnd_fixed)

lemma trimEnd_append_spaces:
  assumes "list_all isSpace ws"
  shows "trimEnd (s @ ws) = trimEnd s"
proof -
  have "dropWhile isSpace (rev ws @ rev s) = dropWhile isSpace (rev s)"
    using assms by (simp add: dropWhile_append list_all_iff)
  then show ?thesis by (simp add: trimEnd_def)
qed

lemma trim_append_spaces:
  assumes "s \<noteq> []" and "\<not> isSpace (hd s)" and "\<not> isSpace (last s)" and "list_all isSpace ws"
  shows "trim (s @ ws) = s"
proof -
  have "trimStart (s @ ws) = s @ ws"
    using assms(1,2) by (intro trimStart_fixed) simp_all
  then show ?thesis
    using assms by (simp add: trim_def trimEnd_append_spaces trimEnd_fixed)
qed

lemma length_trimEnd: "length (trimEnd s) \<le> length s"
  using length_dropWhile_le [of isSpace "rev s"] by (simp add: trimEnd_def)

lemma trim_fixed_ends:
  assumes "trim s = s" and "s \<noteq> []"
  shows "\<not> isSpace (hd s) \<and> \<not> isSpace (last s)"
proof -
  let ?u = "trimStart s"
  have len: "length (trimEnd ?u) \<le> length ?u" by (rule length_trimEnd)
  have lu: "length ?u \<le> length s" by (simp add: trimStart_def length_dropWhile_le)
  have eq: "length (trimEnd ?u) = length s" using assms(1) by (simp add: trim_def)
  have u: "?u = s"
  proof -
    from len lu eq have l: "length ?u = length s" by simp
    have "s = takeWhile isSpace s @ ?u"
      by (simp add: trimStart_def)
    then have "length s = length (takeWhile isSpace s) + length ?u"
      by (metis length_append)
    with l have "takeWhile isSpace s = []" by simp
    then show ?thesis
      using takeWhile_dropWhile_id [of isSpace s] by (simp add: trimStart_def)
  qed
  have hd_ok: "\<not> isSpace (hd s)"
  proof
    assume "isSpace (hd s)"
    with assms(2) have "length (dropWhile isSpace s) < length s"
      by (cases s) (simp_all add: le_imp_less_Suc length_dropWhile_le)
    with u show False by (simp add: trimStart_def)
  qed
  have last_ok: "\<not> isSpace (last s)"
  proof
    assume sp: "isSpace (last s)"
    from assms(2) obtain xs x where xs: "s = xs @ [x]"
      by (cases s rule: rev_cases) auto
    with sp have "length (dropWhile isSpace (rev s)) < length s"
      using length_dropWhile_le [of isSpace "rev xs"]
      by (simp add: le_imp_less_Suc)
    then have "length (trimEnd s) < length s" by (simp add: trimEnd_def)
    with u eq show False by simp
  qed
  from hd_ok last_ok show ?thesis by simp
qed

lemma first_line_not_Nil:
  assumes "s \<noteq> []" and "\<not> isSpace (hd s)"
  shows "hd (split_lines s) \<noteq> []"
proof -
  from assms obtain c cs where s: "s = c # cs" and c: "c \<noteq> nl"
    using isSpace_nl by (cases s) auto
  obtain m ms where m: "split_lines cs = m # ms"
    using split_lines_not_Nil [of cs] by (cases "split_lines cs") auto
  show ?thesis using s c m by simp
qed

subsection \<open>The parser on the lines the serializer writes\<close>

lemma trim_markers:
  "trim ''// [CODE STARTS]'' = ''// [CODE STARTS]''"
  "trim ''// [CODE ENDS]'' = ''// [CODE ENDS]''"
  "trim ''/* Markdown'' = ''/* Markdown''"
  "trim ''/* Markdown (render)'' = ''/* Markdown (render)''"
  "trim ''/* Output Sample'' = ''/* Output Sample''"
  "trim ''*/'' = ''*/''"
  by code_simp+

lemma marker_tests:
  "includes_str ''/* Markdown (render)'' ''(render)''"
  "\<not> includes_str ''/* Markdown'' ''(render)''"
  "trim (strip_close ''*/'') = []"
  by code_simp+

lemma parse_line_code_starts:
  "parse_line ps ''// [CODE STARTS]'' =
     (addOutput (addMdCell ps))\<lparr> inCodeBlock := True, inMdBlock := False, inOutputBlock := False \<rparr>"
  by (simp add: parse_line_def trim_markers)

lemma parse_line_code_ends:
  "parse_line ps ''// [CODE ENDS]'' = (addJsCell ps)\<lparr> inCodeBlock := False \<rparr>"
  by (simp add: parse_line_def trim_markers)

lemma parse_line_markdown:
  "parse_line ps ''/* Markdown'' =
     (addOutput (addJsCell ps))
       \<lparr> mdMode := Edit, inMdBlock := True, inCodeBlock := False, inOutputBlock := False \<rparr>"
  by (simp add: parse_line_def trim_markers marker_tests startsWith_def)

lemma parse_line_markdown_render:
  "parse_line ps ''/* Markdown (render)'' =
     (addOutput (addJsCell ps))
       \<lparr> mdMode := Render, inMdBlock := True, inCodeBlock := False, inOutputBlock := False \<rparr>"
  by (simp add: parse_line_def trim_markers marker_tests startsWith_def)

lemma parse_line_output_sample:
  "parse_line ps ''/* Output Sample'' =
     (addMdCell (addJsCell ps))\<lparr> inOutputBlock := True, inCodeBlock := False, inMdBlock := False \<rparr>"
  by (simp add: parse_line_def trim_markers startsWith_def)

lemma parse_line_close:
  "parse_line ps ''*/'' =
     (if inMdBlock ps then addMdCell ps else if inOutputBlock ps then addOutput ps else ps)
       \<lparr> inMdBlock := False, inOutputBlock := False \<rparr>"
  by (simp add: parse_line_def trim_markers marker_tests trim_Nil startsWith_def endsWith_def
      Let_def)

lemma parse_line_plain:
  assumes "\<not> marker_line l"
  shows "parse_line ps l =
     (if inCodeBlock ps then ps\<lparr> jsCodeLines := jsCodeLines ps @ [l] \<rparr>
      else if inMdBlock ps then ps\<lparr> mdContent := append_line (mdContent ps) l \<rparr>
      else if inOutputBlock ps then ps\<lparr> outputContent := append_line (outputContent ps) l \<rparr>
      else ps)"
  using assms by (simp add: parse_line_def marker_line_def Let_def)

lemma empty_line_plain: "\<not> marker_line []"
  by (simp add: marker_line_def trim_Nil startsWith_def endsWith_def)

lemma code_lines:
  assumes "list_all (\<lambda>l. \<not> marker_line l) ls" and "inCodeBlock ps"
  shows "parse_lines ps ls = ps\<lparr> jsCodeLines := jsCodeLines ps @ ls \<rparr>"
  using assms
proof (induction ls arbitrary: ps)
  case Nil
  show ?case by (simp add: parse_lines_def)
next
  case (Cons l ls)
  have "parse_lines ps (l # ls) = parse_lines (parse_line ps l) ls"
    by (simp add: parse_lines_def)
  also have "parse_line ps l = ps\<lparr> jsCodeLines := jsCodeLines ps @ [l] \<rparr>"
    using Cons.prems by (simp add: parse_line_plain)
  also have "parse_lines (ps\<lparr> jsCodeLines := jsCodeLines ps @ [l] \<rparr>) ls =
      ps\<lparr> jsCodeLines := jsCodeLines ps @ [l] \<rparr>
        \<lparr> jsCodeLines := jsCodeLines (ps\<lparr> jsCodeLines := jsCodeLines ps @ [l] \<rparr>) @ ls \<rparr>"
    using Cons.prems by (intro Cons.IH) simp_all
  finally show ?case by simp
qed

lemma md_lines:
  assumes "list_all (\<lambda>l. \<not> marker_line l) ls" and "\<not> inCodeBlock ps" and "inMdBlock ps"
  shows "parse_lines ps ls = ps\<lparr> mdContent := foldl append_line (mdContent ps) ls \<rparr>"
  using assms
proof (induction ls arbitrary: ps)
  case Nil
  show ?case by (simp add: parse_lines_def)
next
  case (Cons l ls)
  have "parse_lines ps (l # ls) = parse_lines (parse_line ps l) ls"
    by (simp add: parse_lines_def)
  also have "parse_line ps l = ps\<lparr> mdContent := append_line (mdContent ps) l \<rparr>"
    using Cons.prems by (simp add: parse_line_plain)
  also have "parse_lines (ps\<lparr> mdContent := append_line (mdContent ps) l \<rparr>) ls =
      ps\<lparr> mdContent := append_line (mdContent ps) l \<rparr>
        \<lparr> mdContent := foldl append_line
            (mdContent (ps\<lparr> mdContent := append_line (mdContent ps) l \<rparr>)) ls \<rparr>"
    using Cons.prems by (intro Cons.IH) simp_all
  finally show ?case by simp
qed

lemma output_lines:
  assumes "list_all (\<lambda>l. \<not> marker_line l) ls" and "\<not> inCodeBlock ps" and "\<not> inMdBlock ps"
    and "inOutputBlock ps"
  shows "parse_lines ps ls = ps\<lparr> outputContent := foldl append_line (outputContent ps) ls \<rparr>"
  using assms
proof (induction ls arbitrary: ps)
  case Nil
  show ?case by (simp add: parse_lines_def)
next
  case (Cons l ls)
  have "parse_lines ps (l # ls) = parse_lines (parse_line ps l) ls"
    by (simp add: parse_lines_def)
  also have "parse_line ps l = ps\<lparr> outputContent := append_line (outputContent ps) l \<rparr>"
    using Cons.prems by (simp add: parse_line_plain)
  also have "parse_lines (ps\<lparr> outputContent := append_line (outputContent ps) l \<rparr>) ls =
      ps\<lparr> outputContent := append_line (outputContent ps) l \<rparr>
        \<lparr> outputContent := foldl append_line
            (outputContent (ps\<lparr> outputContent := append_line (outputContent ps) l \<rparr>)) ls \<rparr>"
    using Cons.prems by (intro Cons.IH) simp_all
  finally show ?case by simp
qed

lemma foldl_append_line:
  "acc \<noteq> [] \<Longrightarrow> foldl append_line acc ls = acc @ concat (map ((#) nl) ls)"
  by (induction ls arbitrary: acc) (simp_all add: append_line_def)

lemma accumulate_text:
  assumes "t \<noteq> []" and "trim t = t"
  shows "foldl append_line [] (split_lines t) = t"
proof -
  from assms have "\<not> isSpace (hd t)" using trim_fixed_ends by blast
  with assms(1) have first: "hd (split_lines t) \<noteq> []" by (rule first_line_not_Nil)
  obtain l ls where ls: "split_lines t = l # ls"
    using split_lines_not_Nil [of t] by (cases "split_lines t") auto
  with first have l: "l \<noteq> []" by simp
  have "foldl append_line [] (l # ls) = foldl append_line l ls"
    by (simp add: append_line_def)
  also have "\<dots> = l @ concat (map ((#) nl) ls)"
    using l by (rule foldl_append_line)
  also have "\<dots> = join_lines (l # ls)"
    by (simp add: join_lines_flat)
  finally show ?thesis
    using ls join_split_lines [of t] by simp
qed

lemma parse_lines_append: "parse_lines ps (a @ b) = parse_lines (parse_lines ps a) b"
  by (simp add: parse_lines_def)

lemma parse_lines_Cons: "parse_lines ps (l # ls) = parse_lines (parse_line ps l) ls"
  by (simp add: parse_lines_def)

lemma parse_lines_Nil: "parse_lines ps [] = ps"
  by (simp add: parse_lines_def)

lemma idle_flush:
  "addJsCell (idle_parser cs m) = idle_parser cs m"
  "addMdCell (idle_parser cs m) = idle_parser cs m"
  "addOutput (idle_parser cs m) = idle_parser cs m"
  by (simp_all add: idle_parser_def addJsCell_def addMdCell_def addOutput_def trim_Nil)

lemma idle_empty_line: "parse_line (idle_parser cs m) [] = idle_parser cs m"
  by (simp add: parse_line_plain [OF empty_line_plain] idle_parser_def)

lemma plain_text_lines: "plain_text t \<Longrightarrow> list_all (\<lambda>l. \<not> marker_line l) (split_lines t)"
  by (simp add: plain_text_def)

lemma plain_text_trim: "plain_text t \<Longrightarrow> trim t = t"
  by (simp add: plain_text_def)

lemma code_block:
  assumes "plain_text t"
  shows "parse_lines (idle_parser cs m) (''// [CODE STARTS]'' # split_lines t @ [''// [CODE ENDS]''])
    = idle_parser (cs @ [\<lparr> type_d = Js, code_d = t, mode_d = None, outputs_d = Some [] \<rparr>]) m"
proof -
  let ?p1 = "(idle_parser cs m)\<lparr> inCodeBlock := True \<rparr>"
  have s1: "parse_line (idle_parser cs m) ''// [CODE STARTS]'' = ?p1"
    by (simp add: parse_line_code_starts idle_flush) (simp add: idle_parser_def)
  have s2: "parse_lines ?p1 (split_lines t) = ?p1\<lparr> jsCodeLines := split_lines t \<rparr>"
    using code_lines [OF plain_text_lines [OF assms], of ?p1] by (simp add: idle_parser_def)
  have s3: "parse_line (?p1\<lparr> jsCodeLines := split_lines t \<rparr>) ''// [CODE ENDS]''
    = idle_parser (cs @ [\<lparr> type_d = Js, code_d = t, mode_d = None, outputs_d = Some [] \<rparr>]) m"
    using split_lines_not_Nil [of t] plain_text_trim [OF assms]
    by (simp add: parse_line_code_ends addJsCell_def join_split_lines idle_parser_def)
  show ?thesis
    by (simp only: parse_lines_Cons parse_lines_append parse_lines_Nil s1 s2 s3)
qed

lemma markdown_block:
  assumes "plain_text t" and "t \<noteq> []"
  shows "parse_lines (idle_parser cs m) (''/* Markdown'' # split_lines t @ [''*/''])
    = idle_parser (cs @ [\<lparr> type_d = Md, code_d = t, mode_d = Some Edit, outputs_d = None \<rparr>]) Edit"
proof -
  let ?p1 = "(idle_parser cs Edit)\<lparr> inMdBlock := True \<rparr>"
  have s1: "parse_line (idle_parser cs m) ''/* Markdown'' = ?p1"
    by (simp add: parse_line_markdown idle_flush) (simp add: idle_parser_def)
  have s2: "parse_lines ?p1 (split_lines t) = ?p1\<lparr> mdContent := t \<rparr>"
    using md_lines [OF plain_text_lines [OF assms(1)], of ?p1]
      accumulate_text [OF assms(2) plain_text_trim [OF assms(1)]]
    by (simp add: idle_parser_def)
  have s3: "parse_line (?p1\<lparr> mdContent := t \<rparr>) ''*/''
    = idle_parser (cs @ [\<lparr> type_d = Md, code_d = t, mode_d = Some Edit, outputs_d = None \<rparr>]) Edit"
    using assms(2) plain_text_trim [OF assms(1)]
    by (simp add: parse_line_close addMdCell_def idle_parser_def)
  show ?thesis
    by (simp only: parse_lines_Cons parse_lines_append parse_lines_Nil s1 s2 s3)
qed

lemma markdown_render_block:
  assumes "plain_text t" and "t \<noteq> []"
  shows "parse_lines (idle_parser cs m) (''/* Markdown (render)'' # split_lines t @ [''*/''])
    = idle_parser (cs @ [\<lparr> type_d = Md, code_d = t, mode_d = Some Render, outputs_d = None \<rparr>]) Render"
proof -
  let ?p1 = "(idle_parser cs Render)\<lparr> inMdBlock := True \<rparr>"
  have s1: "parse_line (idle_parser cs m) ''/* Markdown (render)'' = ?p1"
    by (simp add: parse_line_markdown_render idle_flush) (simp add: idle_parser_def)
  have s2: "parse_lines ?p1 (split_lines t) = ?p1\<lparr> mdContent := t \<rparr>"
    using md_lines [OF plain_text_lines [OF assms(1)], of ?p1]
      accumulate_text [OF assms(2) plain_text_trim [OF assms(1)]]
    by (simp add: idle_parser_def)
  have s3: "parse_line (?p1\<lparr> mdContent := t \<rparr>) ''*/''
    = idle_parser (cs @ [\<lparr> type_d = Md, code_d = t, mode_d = Some Render, outputs_d = None \<rparr>]) Render"
    using assms(2) plain_text_trim [OF assms(1)]
    by (simp add: parse_line_close addMdCell_def idle_parser_def)
  show ?thesis
    by (simp only: parse_lines_Cons parse_lines_append parse_lines_Nil s1 s2 s3)
qed

lemma output_block:
  assumes "plain_text d" and "d \<noteq> []" and "type_d js = Js"
  shows "parse_lines (idle_parser (cs @ [js]) m)
      ([[], ''/* Output Sample'', []] @ split_lines d @ [[], ''*/''])
    = idle_parser (cs @ [js\<lparr> outputs_d :=
        Some ((case outputs_d js of None \<Rightarrow> [] | Some os \<Rightarrow> os) @ [Log d]) \<rparr>]) m"
proof -
  let ?p0 = "idle_parser (cs @ [js]) m"
  let ?p1 = "?p0\<lparr> inOutputBlock := True \<rparr>"
  have ends: "\<not> isSpace (hd d)" "\<not> isSpace (last d)"
    using trim_fixed_ends [OF plain_text_trim [OF assms(1)] assms(2)] by simp_all
  have s0: "parse_line ?p0 [] = ?p0" by (rule idle_empty_line)
  have s1: "parse_line ?p0 ''/* Output Sample'' = ?p1"
    by (simp add: parse_line_output_sample idle_flush) (simp add: idle_parser_def)
  have plain: "list_all (\<lambda>l. \<not> marker_line l) ([] # split_lines d @ [[]])"
    using plain_text_lines [OF assms(1)] by (simp add: empty_line_plain)
  have acc: "foldl append_line [] ([] # split_lines d @ [[]]) = d @ [nl]"
    using accumulate_text [OF assms(2) plain_text_trim [OF assms(1)]] assms(2)
    by (simp add: append_line_def)
  have s2: "parse_lines ?p1 ([] # split_lines d @ [[]]) = ?p1\<lparr> outputContent := d @ [nl] \<rparr>"
    using output_lines [OF plain, of ?p1] acc by (simp add: idle_parser_def)
  have t: "trim (d @ [nl]) = d"
    using assms(2) ends by (intro trim_append_spaces) (simp_all add: isSpace_nl)
  have s3: "parse_line (?p1\<lparr> outputContent := d @ [nl] \<rparr>) ''*/''
    = idle_parser (cs @ [js\<lparr> outputs_d :=
        Some ((case outputs_d js of None \<Rightarrow> [] | Some os \<Rightarrow> os) @ [Log d]) \<rparr>]) m"
    using assms(2,3) t
    by (simp add: parse_line_close addOutput_def idle_parser_def)
  have "parse_lines ?p0 ([[], ''/* Output Sample'', []] @ split_lines d @ [[], ''*/''])
      = parse_line (parse_lines (parse_line (parse_line ?p0 []) ''/* Output Sample'')
          ([] # split_lines d @ [[]])) ''*/''"
    by (simp add: parse_lines_def)
  then show ?thesis by (simp only: s0 s1 s2 s3)
qed

lemma single_plain_logD:
  assumes "single_plain_log outs" and "outs \<noteq> []"
  shows "\<exists>d. outs = [Log d] \<and> d \<noteq> [] \<and> plain_text d \<and> sanitizedOutput d = d"
proof -
  from assms(2) obtain out rest where o: "outs = out # rest" by (cases outs) auto
  show ?thesis
  proof (cases rest)
    case Nil
    with assms(1) o show ?thesis
      by (cases out) (simp_all add: single_plain_log_def)
  next
    case (Cons a as)
    with assms(1) o show ?thesis
      by (cases out) (simp_all add: single_plain_log_def)
  qed
qed

text \<open>One block: from the parser between two blocks, the lines of a cell that passes
  through unchanged add the record of that cell and leave the parser between two blocks.\<close>

lemma cell_block:
  assumes "roundtrippable c t"
  shows "\<exists>m'. parse_lines (idle_parser cs m) (block_lines c t)
           = idle_parser (cs @ [parsed_cell c t]) m'"
proof (cases "type c = Md")
  case True
  with assms have p: "plain_text t" and ne: "t \<noteq> []"
    by (simp_all add: roundtrippable_def)
  show ?thesis
  proof (cases "mode c = Some Render")
    case r: True
    then show ?thesis
      using True markdown_render_block [OF p ne, of cs m]
      by (auto simp: block_lines_def parsed_cell_def)
  next
    case False
    then show ?thesis
      using True markdown_block [OF p ne, of cs m]
      by (auto simp: block_lines_def parsed_cell_def)
  qed
next
  case False
  with assms have p: "plain_text t" and outs: "single_plain_log (outputs c)"
    by (simp_all add: roundtrippable_def)
  let ?js = "\<lparr> type_d = Js, code_d = t, mode_d = None, outputs_d = Some [] \<rparr>"
  note code = code_block [OF p, of cs m]
  show ?thesis
  proof (cases "outputs c")
    case Nil
    then show ?thesis
      using False code by (auto simp: block_lines_def parsed_cell_def)
  next
    case (Cons out rest)
    with outs obtain d where d: "outputs c = [Log d]" "d \<noteq> []" "plain_text d"
      using single_plain_logD [of "outputs c"] by auto
    have "parse_lines (idle_parser cs m) (block_lines c t)
        = parse_lines (parse_lines (idle_parser cs m)
            (''// [CODE STARTS]'' # split_lines t @ [''// [CODE ENDS]'']))
            ([[], ''/* Output Sample'', []] @ split_lines d @ [[], ''*/''])"
      using False d(1) by (simp add: block_lines_def parse_lines_def)
    also have "\<dots> = idle_parser (cs @ [?js\<lparr> outputs_d := Some ([] @ [Log d]) \<rparr>]) m"
      using output_block [OF d(3,2), of ?js cs m] by (simp only: code) simp
    finally show ?thesis
      using False d(1) by (auto simp: parsed_cell_def)
  qed
qed

lemma document_blocks:
  assumes "list_all (\<lambda>(c, t). roundtrippable c t) cts"
  shows "\<exists>m'. parse_lines (idle_parser cs m) (document_lines cts)
           = idle_parser (cs @ map (\<lambda>(c, t). parsed_cell c t) cts) m'"
  using assms
proof (induction cts arbitrary: cs m rule: document_lines.induct)
  case 1
  show ?case by (rule exI [of _ m]) (simp add: parse_lines_Nil)
next
  case (2 cell code)
  then show ?case using cell_block [of cell code cs m] by simp
next
  case (3 cell code x rest)
  from "3.prems" have r: "roundtrippable cell code"
    and rest: "list_all (\<lambda>(c, t). roundtrippable c t) (x # rest)" by simp_all
  from cell_block [OF r, of cs m] obtain m1 where
    b: "parse_lines (idle_parser cs m) (block_lines cell code)
          = idle_parser (cs @ [parsed_cell cell code]) m1" by blast
  from "3.IH" [OF rest, of "cs @ [parsed_cell cell code]" m1] obtain m2 where
    t: "parse_lines (idle_parser (cs @ [parsed_cell cell code]) m1) (document_lines (x # rest))
          = idle_parser ((cs @ [parsed_cell cell code]) @ map (\<lambda>(c, t). parsed_cell c t) (x # rest)) m2"
    by blast
  have "parse_lines (idle_parser cs m) (document_lines ((cell, code) # x # rest))
      = parse_lines (parse_line (parse_lines (idle_parser cs m) (block_lines cell code)) [])
          (document_lines (x # rest))"
    by (simp add: parse_lines_def)
  also have "\<dots> = idle_parser ((cs @ [parsed_cell cell code]) @
      map (\<lambda>(c, t). parsed_cell c t) (x # rest)) m2"
    by (simp only: b idle_empty_line t)
  finally show ?case by auto
qed

subsection \<open>The serializer, and the round trip\<close>

lemma concat_nl_split_lines: "concat (map ((#) nl) (split_lines t)) = nl # t"
proof -
  obtain l ls where ls: "split_lines t = l # ls"
    using split_lines_not_Nil [of t] by (cases "split_lines t") auto
  have "join_lines (l # ls) = l @ concat (map ((#) nl) ls)" by (rule join_lines_flat)
  with ls join_split_lines [of t] have "t = l @ concat (map ((#) nl) ls)" by simp
  then show ?thesis using ls by simp
qed

lemma cellText_lines:
  assumes "roundtrippable c t"
  shows "cellText c t = join_lines (block_lines c t) @ [nl, nl]"
proof (cases "type c = Md")
  case True
  then show ?thesis
    by (simp add: cellText_def block_lines_def join_lines_flat concat_nl_split_lines)
next
  case False
  with assms have outs: "single_plain_log (outputs c)" by (simp add: roundtrippable_def)
  show ?thesis
  proof (cases "outputs c")
    case Nil
    then show ?thesis
      using False
      by (simp add: cellText_def block_lines_def join_lines_flat concat_nl_split_lines)
  next
    case (Cons out rest)
    with outs obtain d where d: "outputs c = [Log d]" "sanitizedOutput d = d"
      using single_plain_logD [of "outputs c"] by auto
    then show ?thesis
      using False
      by (simp add: cellText_def block_lines_def outputText_def join_lines_flat
          concat_nl_split_lines)
  qed
qed

lemma downloadLoop_content:
  assumes "list_all (\<lambda>c. editorOf st (cellId c) \<noteq> None) cs"
  shows "downloadLoop st cs acc = Inr (acc @ concat (map (\<lambda>c. cellText c (editorText st c)) cs))"
  using assms
  by (induction cs arbitrary: acc) (auto simp: editorText_def)

lemma block_lines_head: "\<exists>m ls. block_lines c t = (CHR ''/'' # m) # ls"
  by (simp add: block_lines_def)

lemma block_lines_last:
  "last (block_lines c t) = ''*/'' \<or> last (block_lines c t) = ''// [CODE ENDS]''"
  by (simp add: block_lines_def split: list.splits)

lemma document_lines_head:
  "cts \<noteq> [] \<Longrightarrow> \<exists>m ls. document_lines cts = (CHR ''/'' # m) # ls"
proof (induction cts rule: document_lines.induct)
  case 1
  then show ?case by simp
next
  case (2 cell code)
  show ?case using block_lines_head [of cell code] by simp
next
  case (3 cell code x rest)
  obtain m ls where "block_lines cell code = (CHR ''/'' # m) # ls"
    using block_lines_head [of cell code] by blast
  then show ?case by simp
qed

lemma document_lines_last:
  "cts \<noteq> [] \<Longrightarrow>
     last (document_lines cts) = ''*/'' \<or> last (document_lines cts) = ''// [CODE ENDS]''"
proof (induction cts rule: document_lines.induct)
  case 1
  then show ?case by simp
next
  case (2 cell code)
  show ?case using block_lines_last [of cell code] by simp
next
  case (3 cell code x rest)
  have "document_lines (x # rest) \<noteq> []"
    using document_lines_head [of "x # rest"] by auto
  then have "last (document_lines ((cell, code) # x # rest)) = last (document_lines (x # rest))"
    by simp
  then show ?case using 3 by simp
qed

lemma last_join_lines:
  "ls \<noteq> [] \<Longrightarrow> last ls \<noteq> [] \<Longrightarrow>
     join_lines ls \<noteq> [] \<and> last (join_lines ls) = last (last ls)"
proof (induction ls)
  case Nil
  then show ?case by simp
next
  case (Cons l ls)
  show ?case
  proof (cases "ls = []")
    case True
    then show ?thesis using Cons.prems by simp
  next
    case False
    then show ?thesis using Cons by (simp add: join_lines_Cons)
  qed
qed

lemma block_lines_no_nl: "l \<in> set (block_lines c t) \<Longrightarrow> nl \<notin> set l"
  by (auto simp: block_lines_def nl_def [symmetric] dest: lines_have_no_nl
      split: if_splits list.splits)
    (simp_all add: nl_def)

lemma document_lines_no_nl: "l \<in> set (document_lines cts) \<Longrightarrow> nl \<notin> set l"
proof (induction cts rule: document_lines.induct)
  case 1
  then show ?case by simp
next
  case (2 cell code)
  then show ?case using block_lines_no_nl [of l cell code] by simp
next
  case (3 cell code x rest)
  then show ?case using block_lines_no_nl [of l cell code] by auto
qed

lemma document_content:
  assumes "list_all (\<lambda>(c, t). roundtrippable c t) cts" and "cts \<noteq> []"
  shows "concat (map (\<lambda>(c, t). cellText c t) cts) = join_lines (document_lines cts) @ [nl, nl]"
  using assms
proof (induction cts rule: document_lines.induct)
  case 1
  then show ?case by simp
next
  case (2 cell code)
  then show ?case by (simp add: cellText_lines)
next
  case (3 cell code x rest)
  have b: "block_lines cell code \<noteq> []"
    using block_lines_head [of cell code] by auto
  have r: "document_lines (x # rest) \<noteq> []"
    using document_lines_head [of "x # rest"] by auto
  have "join_lines (document_lines ((cell, code) # x # rest))
      = join_lines (block_lines cell code) @ nl # nl # join_lines (document_lines (x # rest))"
    using b r by (simp add: join_lines_append join_lines_Cons)
  moreover have "concat (map (\<lambda>(c, t). cellText c t) (x # rest))
      = join_lines (document_lines (x # rest)) @ [nl, nl]"
    using "3.prems" by (intro "3.IH") simp_all
  moreover have "cellText cell code = join_lines (block_lines cell code) @ [nl, nl]"
    using "3.prems" by (simp add: cellText_lines)
  ultimately show ?case by simp
qed

lemma trim_document:
  assumes "cts \<noteq> []"
  shows "trim (join_lines (document_lines cts) @ [nl, nl]) = join_lines (document_lines cts)"
proof -
  let ?J = "join_lines (document_lines cts)"
  obtain m ls where h: "document_lines cts = (CHR ''/'' # m) # ls"
    using document_lines_head [OF assms] by blast
  then have hd: "?J = CHR ''/'' # join_lines (m # ls)"
    by (simp add: join_lines_Cons_char)
  have "last (document_lines cts) \<noteq> []" and l: "last (last (document_lines cts)) \<in> {CHR ''/'', CHR '']''}"
    using document_lines_last [OF assms] by auto
  with h have "last ?J \<in> {CHR ''/'', CHR '']''}"
    using last_join_lines [of "document_lines cts"] by simp
  then have last: "\<not> isSpace (last ?J)" by (auto simp: isSpace_def)
  from hd have first: "?J \<noteq> []" "\<not> isSpace (hd ?J)" by (simp_all add: isSpace_def)
  show ?thesis
    using first last by (intro trim_append_spaces) (simp_all add: isSpace_nl)
qed

lemma parse_document:
  assumes "list_all (\<lambda>(c, t). roundtrippable c t) cts"
  shows "parseNotebookFile (trim (concat (map (\<lambda>(c, t). cellText c t) cts)))
           = map (\<lambda>(c, t). parsed_cell c t) cts"
proof (cases "cts = []")
  case True
  have "parse_line parser_init [] = parser_init"
    using idle_empty_line [of "[]" Edit] by (simp add: idle_parser_def parser_init_def)
  then show ?thesis
    using True idle_flush [of "[]" Edit]
    by (simp add: parseNotebookFile_def trim_Nil parse_lines_def idle_parser_def parser_init_def)
next
  case False
  have lines: "split_lines (join_lines (document_lines cts)) = document_lines cts"
    using document_lines_head [OF False] document_lines_no_nl [of _ cts]
    by (intro split_join_lines) auto
  obtain m' where p: "parse_lines (idle_parser [] Edit) (document_lines cts)
      = idle_parser (map (\<lambda>(c, t). parsed_cell c t) cts) m'"
    using document_blocks [OF assms, of "[]" Edit] by auto
  have init: "parser_init = idle_parser [] Edit"
    by (simp add: parser_init_def idle_parser_def)
  have "trim (concat (map (\<lambda>(c, t). cellText c t) cts)) = join_lines (document_lines cts)"
    using document_content [OF assms False] trim_document [OF False] by simp
  then show ?thesis
    by (simp add: parseNotebookFile_def lines init p idle_flush) (simp add: idle_parser_def)
qed

lemma dataArgs_parsed_cell:
  assumes "roundtrippable c t"
  shows "dataArgs (parsed_cell c t) = cellArgs c t"
  using assms
  by (cases "type c") (auto simp: dataArgs_def parsed_cell_def cellArgs_def roundtrippable_def)

text \<open>
  C1, the counterexample. The code cell of \<open>two_logs_page\<close> has logged \<open>1\<close> and \<open>2\<close>. The
  downloaded text holds both in one output block, and parsing it gives the cell with one
  output, a log of the two texts with an empty line between them.
\<close>

theorem roundtrip_merges_outputs_counterexample:
  "map (\<lambda>c. cellArgs c (editorText two_logs_page c)) (cells two_logs_page)
     = [(''console.log(1); console.log(2)'', Js, False, [Log ''1'', Log ''2''])] \<and>
   (case downloadNotebook two_logs_page of
      Inl e \<Rightarrow> []
    | Inr text \<Rightarrow> map dataArgs (parseNotebookFile text))
     = [(''console.log(1); console.log(2)'', Js, False, [Log (''1'' @ [nl, nl] @ ''2'')])]"
  by code_simp

text \<open>
  C1, as amended. Let every cell of the page have an editor whose text has no white space
  at its ends and no line that the parser takes for a marker, let every text cell have a
  non-empty text and no outputs, and let every code cell have no outputs or one log
  output whose text is non-empty, free of white space at its ends, of marker lines and of
  the characters \<open><>&"'\<close>. Then the download succeeds, and parsing the downloaded text gives
  one record per cell, in order, whose \<open>addCell\<close> arguments (text, type, whether rendered,
  outputs) are those of the cell.
\<close>

theorem roundtrip_of_plain_cells:
  assumes "roundtrip_ready st"
  shows "\<exists>text. downloadNotebook st = Inr text \<and>
           map dataArgs (parseNotebookFile text)
             = map (\<lambda>c. cellArgs c (editorText st c)) (cells st)"
proof -
  let ?cts = "map (\<lambda>c. (c, editorText st c)) (cells st)"
  from assms have eds: "list_all (\<lambda>c. editorOf st (cellId c) \<noteq> None) (cells st)"
    and rt: "list_all (\<lambda>(c, t). roundtrippable c t) ?cts"
    by (simp_all add: roundtrip_ready_def list_all_iff)
  have content: "concat (map (\<lambda>c. cellText c (editorText st c)) (cells st))
      = concat (map (\<lambda>(c, t). cellText c t) ?cts)"
    by (simp add: comp_def)
  have dl: "downloadNotebook st = Inr (trim (concat (map (\<lambda>(c, t). cellText c t) ?cts)))"
    using downloadLoop_content [OF eds, of "[]"] content by (simp add: downloadNotebook_def)
  have "map dataArgs (map (\<lambda>(c, t). parsed_cell c t) ?cts)
      = map (\<lambda>c. cellArgs c (editorText st c)) (cells st)"
    using rt by (simp add: list_all_iff dataArgs_parsed_cell)
  with dl parse_document [OF rt] show ?thesis by simp
qed

theorem roundtrip_of_plain_cells_witness:
  "\<exists>text. downloadNotebook mixed_page = Inr text \<and>
     map dataArgs (parseNotebookFile text)
       = [(''# title'' @ [nl, nl] @ ''body'', Md, True, []),
          (''console.log(1+1)'', Js, False, [Log ''2'']),
          ([], Js, False, [])]"
proof -
  have ready: "roundtrip_ready mixed_page" by code_simp
  have args: "map (\<lambda>c. cellArgs c (editorText mixed_page c)) (cells mixed_page)
       = [(''# title'' @ [nl, nl] @ ''body'', Md, True, []),
          (''console.log(1+1)'', Js, False, [Log ''2'']),
          ([], Js, False, [])]"
    by code_simp
  from roundtrip_of_plain_cells [OF ready] args show ?thesis by simp
qed

text \<open>
  What else does not come back unchanged, each on a one-cell document: white space at the
  ends of a text is trimmed, a text cell with an empty text is dropped, an error output
  comes back as a log, an image output comes back as the log of its tag, and an escaped
  character comes back as its entity. A code cell with an empty text does come back.
\<close>

lemma roundtrip_trims_text:
  "map dataArgs (parseNotebookFile (trim (cellText (sample_code_cell []) '' x'')))
     = [(''x'', Js, False, [])]"
  by code_simp

lemma roundtrip_drops_empty_text_cell:
  "map dataArgs (parseNotebookFile (trim (cellText sample_text_cell []))) = []"
  by code_simp

lemma roundtrip_turns_error_into_log:
  "map dataArgs (parseNotebookFile (trim (cellText (sample_code_cell [Error ''e'']) ''x'')))
     = [(''x'', Js, False, [Log ''e''])]"
  by code_simp

lemma roundtrip_turns_image_into_log:
  "map dataArgs (parseNotebookFile (trim (cellText (sample_code_cell [Image ''QQ=='' ''image/png'']) ''x'')))
     = [(''x'', Js, False,
         [Log (''<img src='' @ [CHR 0x22] @ ''data:image/png;base64,QQ=='' @ [CHR 0x22] @
               '' style='' @ [CHR 0x22] @ ''height:auto; width:100%;'' @ [CHR 0x22] @ '' />'')])]"
  by code_simp

lemma roundtrip_escapes_output_text:
  "map dataArgs (parseNotebookFile (trim (cellText (sample_code_cell [Log ''a<b'']) ''x'')))
     = [(''x'', Js, False, [Log ''a&lt;b''])]"
  by code_simp

lemma roundtrip_keeps_empty_code_cell:
  "map dataArgs (parseNotebookFile (trim (cellText (sample_code_cell []) [])))
     = [([], Js, False, [])]"
  by code_simp

end
